theory Spec2Isabelle
  imports Main
begin

section \<open>Canonical result model (search/client.go)\<close>

text \<open>
  \<^verbatim>\<open>type ResultType string\<close>: a named string type. The constants are the values the
  doc comment restricts the \<^verbatim>\<open>Type\<close> field to; the Go type itself admits any string.
  \<open>SearchResult\<close> is the struct of the later client.go, the one that also declares the
  error types: it has the field \<^verbatim>\<open>ProviderId\<close>, which the TMDB adapter sets and the OMDB
  adapter leaves at its zero value, the empty string.
\<close>

type_synonym ResultType = string

definition Movie :: ResultType where
  "Movie = ''movie''"

definition Series :: ResultType where
  "Series = ''series''"

definition Episode :: ResultType where
  "Episode = ''episode''"

record SearchResult =
  Title :: string
  Year :: string
  ImdbID :: string
  ProviderId :: string
  PosterURL :: string
  Type :: ResultType

section \<open>Errors\<close>

text \<open>
  A Go \<^verbatim>\<open>error\<close> value is modelled by its dynamic type. \<open>ErrorString\<close> is what
  \<^verbatim>\<open>fmt.Errorf\<close> returns for a format without \<^verbatim>\<open>%w\<close> (an \<^verbatim>\<open>*errors.errorString\<close>
  holding the formatted text). \<open>Errorf_v prefix err\<close> is such a value too, the one
  \<^verbatim>\<open>fmt.Errorf\<close> returns for the format \<open>prefix\<close> followed by \<^verbatim>\<open>%v\<close>, applied to the
  error \<open>err\<close>: its text is \<open>prefix\<close> followed by the text of \<open>err\<close>, and the model keeps
  \<open>err\<close> in place of that text. \<open>InvalidMaxResultsError\<close>, \<open>SearchProviderError\<close> and
  \<open>ResultParsingError\<close> are the three error types client.go declares. \<open>NumError\<close> is
  \<^verbatim>\<open>*strconv.NumError\<close> (fields Func, Num, Err). \<open>TransportError\<close> and
  \<open>DecodeError\<close> stand for the errors of the two collaborators, the HTTP client and the
  JSON decoder, each with its message.
\<close>

datatype strconv_err = ErrSyntax | ErrRange

datatype error =
    ErrorString string
  | Errorf_v string error
  | InvalidMaxResultsError
  | SearchProviderError string
  | ResultParsingError string
  | NumError string string strconv_err
  | TransportError string
  | DecodeError string

text \<open>
  The \<^verbatim>\<open>Error()\<close> method of each error type. \<^verbatim>\<open>NumError.Error\<close> applies
  \<^verbatim>\<open>strconv.Quote\<close> to the offending input; that library function (it escapes by the
  Unicode tables of the library) is the parameter \<open>Quote\<close>.
\<close>

fun Error_of :: "(string \<Rightarrow> string) \<Rightarrow> error \<Rightarrow> string" where
  "Error_of Quote (ErrorString s) = s"
| "Error_of Quote (Errorf_v prefix err) = prefix @ Error_of Quote err"
| "Error_of Quote InvalidMaxResultsError = ''maxResults must be greater than zero''"
| "Error_of Quote (SearchProviderError errorMessage) = errorMessage"
| "Error_of Quote (ResultParsingError reason) = reason"
| "Error_of Quote (NumError fn num e) =
     ''strconv.'' @ fn @ '': parsing '' @ Quote num @ '': '' @
     (case e of ErrSyntax \<Rightarrow> ''invalid syntax'' | ErrRange \<Rightarrow> ''value out of range'')"
| "Error_of Quote (TransportError msg) = msg"
| "Error_of Quote (DecodeError msg) = msg"

section \<open>Library functions the adapters call\<close>

text \<open>The verb \<^verbatim>\<open>%d\<close> of \<^verbatim>\<open>fmt\<close>: an integer in decimal, with a minus sign when negative.\<close>

definition digit_char :: "nat \<Rightarrow> char" where
  "digit_char d = char_of (48 + d mod 10)"

fun fmt_nat :: "nat \<Rightarrow> string" where
  "fmt_nat n = (if n < 10 then [digit_char n] else fmt_nat (n div 10) @ [digit_char (n mod 10)])"

declare fmt_nat.simps [simp del]

definition fmt_d :: "int \<Rightarrow> string" where
  "fmt_d i = (if i < 0 then CHR ''-'' # fmt_nat (nat (- i)) else fmt_nat (nat i))"

text \<open>
  \<^verbatim>\<open>strconv.Atoi\<close> for a 64-bit \<^verbatim>\<open>int\<close>: an optional sign, then one or more decimal
  digits. A character that is no digit is a syntax error; a magnitude that leaves the
  unsigned 64-bit range while the digits are read, or a value outside the signed range at
  the end, is a range error.
\<close>

definition is_digit :: "char \<Rightarrow> bool" where
  "is_digit c \<longleftrightarrow> (48::int) \<le> of_char c \<and> (of_char c :: int) \<le> 57"

fun parse_digits :: "int \<Rightarrow> string \<Rightarrow> strconv_err + int" where
  "parse_digits n [] = Inr n"
| "parse_digits n (c # cs) =
     (if \<not> is_digit c then Inl ErrSyntax
      else let n1 = n * 10 + (of_char c - 48)
           in if n1 \<ge> 2 ^ 64 then Inl ErrRange else parse_digits n1 cs)"

definition Atoi :: "string \<Rightarrow> error + int" where
  "Atoi s =
     (let neg = (s \<noteq> [] \<and> hd s = CHR 0x2D);
          digits = (if s \<noteq> [] \<and> (hd s = CHR 0x2B \<or> hd s = CHR 0x2D) then tl s else s)
      in if digits = [] then Inl (NumError ''Atoi'' s ErrSyntax)
         else case parse_digits 0 digits of
                Inl e \<Rightarrow> Inl (NumError ''Atoi'' s e)
              | Inr un \<Rightarrow>
                  if \<not> neg \<and> un \<ge> 2 ^ 63 then Inl (NumError ''Atoi'' s ErrRange)
                  else if neg \<and> un > 2 ^ 63 then Inl (NumError ''Atoi'' s ErrRange)
                  else Inr (if neg then - un else un))"

section \<open>The transport and the decoder\<close>

text \<open>
  One page fetch sends one GET request through \<^verbatim>\<open>os.client.Do\<close> and decodes the body
  with \<^verbatim>\<open>json.NewDecoder(resp.Body).Decode\<close>. The request is fixed by the adapter's
  constants, the searcher's key, the query and the page number, and a call to Search asks
  for each page number once, so the provider behind the client is a function from query
  and page number to what the two collaborators return: the client's error, or a status
  code with a body that the decoder rejects (\<open>Malformed\<close>, with the decoder's message) or
  turns into the response struct (\<open>Decoded\<close>). Building the request cannot fail for the
  constant URLs and a context that is not nil. Every call of \<^verbatim>\<open>client.Do\<close> is recorded
  in a list of (query, page number) pairs. The progress line written with
  \<^verbatim>\<open>log.Printf\<close> is left out.
\<close>

datatype 'r body = Malformed string | Decoded 'r

datatype 'r do_result = DoError string | DoResponse int "'r body"

type_synonym 'r Client = "string \<Rightarrow> int \<Rightarrow> 'r do_result"

type_synonym call = "string \<times> int"

section \<open>The runtime: allocating the slice of Search\<close>

text \<open>
  Search allocates its slice with \<^verbatim>\<open>make([]SearchResult, 0, maxResults)\<close> before the
  loop. \<^verbatim>\<open>runtime.makeslice\<close> panics with \<^verbatim>\<open>makeslice: cap out of range\<close> when the
  capacity is negative or the capacity times the size of an element is more than
  \<^verbatim>\<open>maxAlloc\<close>. A \<open>SearchResult\<close> is six strings, which is 96 bytes where a pointer and
  an \<^verbatim>\<open>int\<close> have 64 bits, and \<^verbatim>\<open>maxAlloc\<close> is \<open>2^48\<close> there (48 bits of heap address,
  as on linux/amd64). For a capacity within that limit the runtime asks for the bytes,
  and ends the program with a fatal error (out of memory) when it does not get them;
  whether it gets them is the parameter \<open>mem\<close>. So a call has one of three outcomes: it
  returns, it panics (with the text of the runtime error), or the program ends.
\<close>

datatype 'a outcome = Return 'a | Panic string | Fatal

definition SearchResult_size :: int where
  "SearchResult_size = 6 * 16"

definition maxAlloc :: int where
  "maxAlloc = 2 ^ 48"

type_synonym memory = "int \<Rightarrow> bool"

definition makeslice :: "memory \<Rightarrow> int \<Rightarrow> SearchResult list outcome" where
  "makeslice mem cap =
     (if cap < 0 \<or> maxAlloc < SearchResult_size * cap
      then Panic ''runtime error: makeslice: cap out of range''
      else if \<not> mem (SearchResult_size * cap) then Fatal
      else Return [])"

section \<open>The OMDB adapter (search/omdb_client.go)\<close>

record omdb_result =
  o_Title :: string
  o_Year :: string
  o_ImdbID :: string
  o_PosterURL :: string
  o_Type :: ResultType

record omdbResponse =
  omdb_Result :: "omdb_result list"
  omdb_TotalResults :: string
  omdb_Error :: string

definition omdb_SearchResult :: "omdb_result \<Rightarrow> SearchResult" where
  "omdb_SearchResult result =
     \<lparr>Title = o_Title result, Year = o_Year result, ImdbID = o_ImdbID result,
      ProviderId = '''', PosterURL = o_PosterURL result, Type = o_Type result\<rparr>"

text \<open>
  The conversion loop of \<^verbatim>\<open>searchPage\<close>: the counter is decremented for every item
  looked at, and the loop is left once it is negative. Returns the counter and the slice.
\<close>

fun omdb_convert :: "omdb_result list \<Rightarrow> int \<Rightarrow> SearchResult list \<Rightarrow> int \<times> SearchResult list" where
  "omdb_convert [] maxResults results = (maxResults, results)"
| "omdb_convert (result # rest) maxResults results =
     (let maxResults = maxResults - 1
      in if maxResults < 0 then (maxResults, results)
         else omdb_convert rest maxResults (results @ [omdb_SearchResult result]))"

text \<open>
  \<^verbatim>\<open>searchPage\<close> returns its (bool, error) pair as a sum, together with the slice behind
  the pointer \<^verbatim>\<open>results\<close> and the calls made so far.
\<close>

definition omdb_searchPage ::
  "omdbResponse Client \<Rightarrow> string \<Rightarrow> int \<Rightarrow> int \<Rightarrow> SearchResult list \<Rightarrow> call list
     \<Rightarrow> (error + bool) \<times> SearchResult list \<times> call list" where
  "omdb_searchPage client query maxResults pageNumber results calls =
     (if maxResults \<le> 0
      then (Inl (ErrorString (''invalid value for maxResults: '' @ fmt_d maxResults)), results, calls)
      else
        case client query pageNumber of
          DoError msg \<Rightarrow> (Inl (TransportError msg), results, calls @ [(query, pageNumber)])
        | DoResponse status (Malformed msg) \<Rightarrow>
            (Inl (DecodeError msg), results, calls @ [(query, pageNumber)])
        | DoResponse status (Decoded resp) \<Rightarrow>
            if omdb_Error resp = ''Movie not found!''
            then (Inr False, results, calls @ [(query, pageNumber)])
            else if omdb_Error resp \<noteq> ''''
            then (Inl (ErrorString (''OMDB API request failed with error: '' @ omdb_Error resp)),
                  results, calls @ [(query, pageNumber)])
            else
              let (maxResults, results) = omdb_convert (omdb_Result resp) maxResults results
              in (case Atoi (omdb_TotalResults resp) of
                    Inl err \<Rightarrow>
                      (Inl (Errorf_v ''failed to convert totalResults to int: '' err),
                       results, calls @ [(query, pageNumber)])
                  | Inr totalResults \<Rightarrow>
                      if int (length results) < totalResults \<and> maxResults > 0
                      then (Inr True, results, calls @ [(query, pageNumber)])
                      else (Inr False, results, calls @ [(query, pageNumber)])))"

text \<open>
  The pagination loop of \<^verbatim>\<open>Search\<close>. Nothing bounds the number of iterations, so the
  loop is a partial function: \<open>None\<close> is a loop that never returns. An error of the page
  fetch drops the slice (\<^verbatim>\<open>return nil, err\<close>). The \<^verbatim>\<open>int\<close>s of the code are integers
  here: the quota counter goes from a positive value down to \<open>-1\<close> at most, the lengths
  are those of slices, and \<^verbatim>\<open>pageNumber\<close> grows by one per iteration from 1, so none of
  them leaves the range of a 64-bit \<^verbatim>\<open>int\<close> in fewer than \<open>2^63\<close> iterations.
\<close>

partial_function (option) omdb_loop ::
  "omdbResponse Client \<Rightarrow> string \<Rightarrow> int \<Rightarrow> int \<Rightarrow> SearchResult list \<Rightarrow> call list
     \<Rightarrow> ((error + SearchResult list) \<times> call list) option" where
  "omdb_loop client query maxResults pageNumber results calls =
     (if int (length results) < maxResults
      then
        case omdb_searchPage client query (maxResults - int (length results)) pageNumber results calls of
          (Inl err, results', calls') \<Rightarrow> Some (Inl err, calls')
        | (Inr nextPageExists, results', calls') \<Rightarrow>
            if \<not> nextPageExists then Some (Inr results', calls')
            else omdb_loop client query maxResults (pageNumber + 1) results' calls'
      else Some (Inr results, calls))"

text \<open>
  \<^verbatim>\<open>Search\<close>: the guard on \<^verbatim>\<open>maxResults\<close>, the allocation of the slice, the loop. When
  the allocation does not return, Search does not return either, and no request has been
  made.
\<close>

definition omdb_Search ::
  "memory \<Rightarrow> omdbResponse Client \<Rightarrow> string \<Rightarrow> int
     \<Rightarrow> ((error + SearchResult list) outcome \<times> call list) option" where
  "omdb_Search mem client query maxResults =
     (if maxResults \<le> 0
      then Some (Return (Inl (ErrorString (''invalid value for maxResults: '' @ fmt_d maxResults))), [])
      else
        case makeslice mem maxResults of
          Panic msg \<Rightarrow> Some (Panic msg, [])
        | Fatal \<Rightarrow> Some (Fatal, [])
        | Return results \<Rightarrow>
            (case omdb_loop client query maxResults 1 results [] of
               None \<Rightarrow> None
             | Some (out, calls) \<Rightarrow> Some (Return out, calls)))"

section \<open>The TMDB adapter (package search, TmdbSearcher)\<close>

text \<open>
  The adapter's source stands in src/search/omdb_client_test.go, after the tests. It
  differs from the OMDB adapter in the status check, in the conversion (the title falls
  back to the name, the media type is mapped or the item skipped) and in how it decides
  that there are more pages.
\<close>

record tmdb_result =
  t_Title :: string
  t_Name :: string
  t_Year :: string
  t_ImdbID :: string
  t_PosterURL :: string
  t_Type :: string
  t_TmdbId :: int

record tmdbResponse =
  tmdb_Result :: "tmdb_result list"
  tmdb_TotalResults :: int
  tmdb_TotalPages :: int
  tmdb_Success :: bool
  tmdb_StatusMessage :: string

text \<open>The \<^verbatim>\<open>switch result.Type\<close>: \<open>None\<close> is the \<^verbatim>\<open>default\<close> branch, which continues.\<close>

definition tmdb_resultType :: "string \<Rightarrow> ResultType option" where
  "tmdb_resultType t =
     (if t = ''movie'' then Some Movie else if t = ''tv'' then Some Series else None)"

definition tmdb_SearchResult :: "tmdb_result \<Rightarrow> ResultType \<Rightarrow> SearchResult" where
  "tmdb_SearchResult result resultType =
     (let resultTitle = (if t_Title result \<noteq> '''' then t_Title result else t_Name result)
      in \<lparr>Title = resultTitle, Year = t_Year result, ImdbID = t_ImdbID result,
          ProviderId = fmt_d (t_TmdbId result), PosterURL = t_PosterURL result,
          Type = resultType\<rparr>)"

fun tmdb_convert :: "tmdb_result list \<Rightarrow> int \<Rightarrow> SearchResult list \<Rightarrow> int \<times> SearchResult list" where
  "tmdb_convert [] maxResults results = (maxResults, results)"
| "tmdb_convert (result # rest) maxResults results =
     (case tmdb_resultType (t_Type result) of
        None \<Rightarrow> tmdb_convert rest maxResults results
      | Some resultType \<Rightarrow>
          (let maxResults = maxResults - 1
           in if maxResults < 0 then (maxResults, results)
              else tmdb_convert rest maxResults (results @ [tmdb_SearchResult result resultType])))"

definition tmdb_searchPage ::
  "tmdbResponse Client \<Rightarrow> string \<Rightarrow> int \<Rightarrow> int \<Rightarrow> SearchResult list \<Rightarrow> call list
     \<Rightarrow> (error + bool) \<times> SearchResult list \<times> call list" where
  "tmdb_searchPage client query maxResults pageNumber results calls =
     (if maxResults \<le> 0
      then (Inl (ErrorString (''invalid value for maxResults: '' @ fmt_d maxResults)), results, calls)
      else
        case client query pageNumber of
          DoError msg \<Rightarrow> (Inl (TransportError msg), results, calls @ [(query, pageNumber)])
        | DoResponse status (Malformed msg) \<Rightarrow>
            (Inl (DecodeError msg), results, calls @ [(query, pageNumber)])
        | DoResponse status (Decoded resp) \<Rightarrow>
            if status \<noteq> 200 \<or> (\<not> tmdb_Success resp \<and> tmdb_StatusMessage resp \<noteq> '''')
            then (Inl (ErrorString (''search request failed: '' @ tmdb_StatusMessage resp)),
                  results, calls @ [(query, pageNumber)])
            else
              let (maxResults, results) = tmdb_convert (tmdb_Result resp) maxResults results
              in if pageNumber < tmdb_TotalPages resp \<and> maxResults > 0
                 then (Inr True, results, calls @ [(query, pageNumber)])
                 else (Inr False, results, calls @ [(query, pageNumber)]))"

partial_function (option) tmdb_loop ::
  "tmdbResponse Client \<Rightarrow> string \<Rightarrow> int \<Rightarrow> int \<Rightarrow> SearchResult list \<Rightarrow> call list
     \<Rightarrow> ((error + SearchResult list) \<times> call list) option" where
  "tmdb_loop client query maxResults pageNumber results calls =
     (if int (length results) < maxResults
      then
        case tmdb_searchPage client query (maxResults - int (length results)) pageNumber results calls of
          (Inl err, results', calls') \<Rightarrow> Some (Inl err, calls')
        | (Inr nextPageExists, results', calls') \<Rightarrow>
            if \<not> nextPageExists then Some (Inr results', calls')
            else tmdb_loop client query maxResults (pageNumber + 1) results' calls'
      else Some (Inr results, calls))"

definition tmdb_Search ::
  "memory \<Rightarrow> tmdbResponse Client \<Rightarrow> string \<Rightarrow> int
     \<Rightarrow> ((error + SearchResult list) outcome \<times> call list) option" where
  "tmdb_Search mem client query maxResults =
     (if maxResults \<le> 0
      then Some (Return (Inl (ErrorString (''invalid value for maxResults: '' @ fmt_d maxResults))), [])
      else
        case makeslice mem maxResults of
          Panic msg \<Rightarrow> Some (Panic msg, [])
        | Fatal \<Rightarrow> Some (Fatal, [])
        | Return results \<Rightarrow>
            (case tmdb_loop client query maxResults 1 results [] of
               None \<Rightarrow> None
             | Some (out, calls) \<Rightarrow> Some (Return out, calls)))"

section \<open>Providers and pages, for stating the properties\<close>

text \<open>
  A provider that reports its totals honestly: it holds a corpus of items, serves it in
  pages of \<open>k\<close> items, and reports the size of the corpus (OMDB, as a decimal string) or
  the number of pages and of items (TMDB) in every response. OMDB answers a page that has
  no item (any page of an empty corpus, a page past the last one) with its not-found
  error; TMDB counts one page for an empty corpus.
\<close>

definition omdb_honest :: "nat \<Rightarrow> omdb_result list \<Rightarrow> omdbResponse Client" where
  "omdb_honest k corpus query pageNumber =
     (if take k (drop (nat (pageNumber - 1) * k) corpus) = []
      then DoResponse 200 (Decoded
             \<lparr>omdb_Result = [], omdb_TotalResults = '''', omdb_Error = ''Movie not found!''\<rparr>)
      else DoResponse 200 (Decoded
             \<lparr>omdb_Result = take k (drop (nat (pageNumber - 1) * k) corpus),
              omdb_TotalResults = fmt_d (int (length corpus)),
              omdb_Error = ''''\<rparr>))"

definition tmdb_honest :: "nat \<Rightarrow> tmdb_result list \<Rightarrow> tmdbResponse Client" where
  "tmdb_honest k corpus query pageNumber =
     DoResponse 200 (Decoded
       \<lparr>tmdb_Result = take k (drop (nat (pageNumber - 1) * k) corpus),
        tmdb_TotalResults = int (length corpus),
        tmdb_TotalPages = int (max 1 ((length corpus + k - 1) div k)),
        tmdb_Success = False,
        tmdb_StatusMessage = ''''\<rparr>)"

text \<open>The canonical results a list of provider items stands for, in the items' order.\<close>

definition omdb_mapped :: "omdb_result list \<Rightarrow> SearchResult list" where
  "omdb_mapped items = map omdb_SearchResult items"

definition tmdb_mapped :: "tmdb_result list \<Rightarrow> SearchResult list" where
  "tmdb_mapped items =
     concat (map (\<lambda>result. case tmdb_resultType (t_Type result) of
                              None \<Rightarrow> []
                            | Some resultType \<Rightarrow> [tmdb_SearchResult result resultType]) items)"

text \<open>
  What page \<open>pageNumber\<close> of a provider offers to the call: the canonical results of the
  decoded items; nothing when the response is the not-found answer of OMDB.
\<close>

definition omdb_page :: "omdbResponse Client \<Rightarrow> string \<Rightarrow> int \<Rightarrow> SearchResult list" where
  "omdb_page client query pageNumber =
     (case client query pageNumber of
        DoResponse status (Decoded resp) \<Rightarrow>
          if omdb_Error resp = ''Movie not found!'' then [] else omdb_mapped (omdb_Result resp)
      | _ \<Rightarrow> [])"

definition tmdb_page :: "tmdbResponse Client \<Rightarrow> string \<Rightarrow> int \<Rightarrow> SearchResult list" where
  "tmdb_page client query pageNumber =
     (case client query pageNumber of
        DoResponse status (Decoded resp) \<Rightarrow> tmdb_mapped (tmdb_Result resp)
      | _ \<Rightarrow> [])"

declare omdb_loop.simps [code]

declare tmdb_loop.simps [code]

section \<open>Example providers\<close>

text \<open>Concrete items and providers, on which the properties below are evaluated.\<close>

definition ex_omdb :: "string \<Rightarrow> ResultType \<Rightarrow> omdb_result" where
  "ex_omdb title ty =
     \<lparr>o_Title = title, o_Year = ''1999'', o_ImdbID = ''tt0133093'', o_PosterURL = ''N/A'',
      o_Type = ty\<rparr>"

definition ex_tmdb :: "string \<Rightarrow> string \<Rightarrow> int \<Rightarrow> tmdb_result" where
  "ex_tmdb name ty ident =
     \<lparr>t_Title = '''', t_Name = name, t_Year = ''1999'', t_ImdbID = '''',
      t_PosterURL = ''/p.jpg'', t_Type = ty, t_TmdbId = ident\<rparr>"

text \<open>Six OMDB titles, served three to a page by \<open>omdb_honest 3\<close>.\<close>

definition ex_omdb_corpus :: "omdb_result list" where
  "ex_omdb_corpus =
     [ex_omdb ''A'' ''movie'', ex_omdb ''B'' ''series'', ex_omdb ''C'' ''movie'',
      ex_omdb ''D'' ''movie'', ex_omdb ''E'' ''episode'', ex_omdb ''F'' ''movie'']"

text \<open>A TMDB corpus of a film and a person.\<close>

definition ex_tmdb_corpus :: "tmdb_result list" where
  "ex_tmdb_corpus = [ex_tmdb ''Alien'' ''movie'' 348, ex_tmdb ''Sigourney Weaver'' ''person'' 10205]"

text \<open>Four TMDB entries, two to a page: a person stands between the titles.\<close>

definition ex_tmdb_pages :: "tmdb_result list" where
  "ex_tmdb_pages =
     [ex_tmdb ''Alien'' ''movie'' 348, ex_tmdb ''Sigourney Weaver'' ''person'' 10205,
      ex_tmdb ''Aliens'' ''movie'' 679, ex_tmdb ''Alien Nation'' ''tv'' 4348]"

text \<open>An OMDB provider whose first page holds one title of five and whose later pages are
  the not-found answer.\<close>

definition ex_omdb_not_found_later :: "omdbResponse Client" where
  "ex_omdb_not_found_later query pageNumber =
     (if pageNumber = 1
      then DoResponse 200 (Decoded
             \<lparr>omdb_Result = [ex_omdb ''A'' ''movie''], omdb_TotalResults = ''5'', omdb_Error = ''''\<rparr>)
      else DoResponse 200 (Decoded
             \<lparr>omdb_Result = [], omdb_TotalResults = '''', omdb_Error = ''Movie not found!''\<rparr>))"

definition ex_omdb_not_found :: "omdbResponse Client" where
  "ex_omdb_not_found query pageNumber =
     DoResponse 200 (Decoded
       \<lparr>omdb_Result = [], omdb_TotalResults = '''', omdb_Error = ''Movie not found!''\<rparr>)"

text \<open>An OMDB provider that answers with status 500 and a body without an Error field.\<close>

definition ex_omdb_status_500 :: "omdbResponse Client" where
  "ex_omdb_status_500 query pageNumber =
     DoResponse 500 (Decoded \<lparr>omdb_Result = [], omdb_TotalResults = ''0'', omdb_Error = ''''\<rparr>)"

definition ex_omdb_unauthorized :: "omdbResponse Client" where
  "ex_omdb_unauthorized query pageNumber =
     DoResponse 401 (Decoded
       \<lparr>omdb_Result = [], omdb_TotalResults = '''', omdb_Error = ''Invalid API key!''\<rparr>)"

definition ex_tmdb_unauthorized :: "tmdbResponse Client" where
  "ex_tmdb_unauthorized query pageNumber =
     DoResponse 401 (Decoded
       \<lparr>tmdb_Result = [], tmdb_TotalResults = 0, tmdb_TotalPages = 0, tmdb_Success = False,
        tmdb_StatusMessage = ''Invalid API key: You must be granted a valid key.''\<rparr>)"

text \<open>Providers whose body is not JSON.\<close>

definition ex_omdb_malformed :: "omdbResponse Client" where
  "ex_omdb_malformed query pageNumber = DoResponse 200 (Malformed ''unexpected EOF'')"

definition ex_tmdb_malformed :: "tmdbResponse Client" where
  "ex_tmdb_malformed query pageNumber = DoResponse 200 (Malformed ''unexpected EOF'')"

text \<open>An OMDB provider whose body holds a title and no totalResults field.\<close>

definition ex_omdb_no_total :: "omdbResponse Client" where
  "ex_omdb_no_total query pageNumber =
     DoResponse 200 (Decoded
       \<lparr>omdb_Result = [ex_omdb ''A'' ''movie''], omdb_TotalResults = '''', omdb_Error = ''''\<rparr>)"

text \<open>Providers that are never reached.\<close>

definition ex_omdb_down :: "omdbResponse Client" where
  "ex_omdb_down query pageNumber = DoError ''connection refused''"

definition ex_tmdb_down :: "tmdbResponse Client" where
  "ex_tmdb_down query pageNumber = DoError ''connection refused''"

text \<open>
  Providers that do not report their totals honestly: every page is empty and says that
  there is more (OMDB: one result in total, never delivered; TMDB: always one page more).
\<close>

definition ex_omdb_dishonest :: "omdbResponse Client" where
  "ex_omdb_dishonest query pageNumber =
     DoResponse 200 (Decoded \<lparr>omdb_Result = [], omdb_TotalResults = ''1'', omdb_Error = ''''\<rparr>)"

definition ex_tmdb_dishonest :: "tmdbResponse Client" where
  "ex_tmdb_dishonest query pageNumber =
     DoResponse 200 (Decoded
       \<lparr>tmdb_Result = [], tmdb_TotalResults = 1, tmdb_TotalPages = pageNumber + 1,
        tmdb_Success = False, tmdb_StatusMessage = ''''\<rparr>)"

text \<open>A TMDB provider whose 200 response carries a false success flag and no message.\<close>

definition ex_tmdb_success_false :: "tmdbResponse Client" where
  "ex_tmdb_success_false query pageNumber =
     DoResponse 200 (Decoded
       \<lparr>tmdb_Result = [ex_tmdb ''Alien'' ''movie'' 348], tmdb_TotalResults = 1,
        tmdb_TotalPages = 1, tmdb_Success = False, tmdb_StatusMessage = ''''\<rparr>)"

text \<open>A runtime that has up to one GiB for the slice.\<close>

definition ex_mem :: memory where
  "ex_mem n \<longleftrightarrow> n \<le> 2 ^ 30"

section \<open>The conversion loops and one page fetch\<close>

lemma take_nat_Cons: "0 < (m::int) \<Longrightarrow> take (nat m) (y # ys) = y # take (nat (m - 1)) ys"
  by (simp add: take_Cons' nat_diff_distrib)

lemma omdb_convert_eq:
  "0 \<le> m \<Longrightarrow> omdb_convert items m rs =
     (if int (length items) \<le> m then m - int (length items) else - 1,
      rs @ take (nat m) (omdb_mapped items))"
proof (induction items arbitrary: m rs)
  case Nil
  then show ?case by (simp add: omdb_mapped_def)
next
  case (Cons x xs)
  show ?case
  proof (cases "m = 0")
    case True
    then show ?thesis by simp
  next
    case False
    with Cons.prems have m: "0 \<le> m - 1" by simp
    have t: "take (nat m) (omdb_mapped (x # xs)) = omdb_SearchResult x # take (nat (m - 1)) (omdb_mapped xs)"
      using False Cons.prems by (simp add: omdb_mapped_def take_Cons' nat_diff_distrib)
    show ?thesis using m False Cons.prems
      by (simp add: Cons.IH [OF m] t Let_def)
  qed
qed

lemma tmdb_mapped_Cons:
  "tmdb_mapped (x # xs) =
     (case tmdb_resultType (t_Type x) of None \<Rightarrow> [] | Some ty \<Rightarrow> [tmdb_SearchResult x ty]) @ tmdb_mapped xs"
  by (simp add: tmdb_mapped_def)

lemma tmdb_mapped_append: "tmdb_mapped (xs @ ys) = tmdb_mapped xs @ tmdb_mapped ys"
  by (simp add: tmdb_mapped_def)

lemma omdb_mapped_append: "omdb_mapped (xs @ ys) = omdb_mapped xs @ omdb_mapped ys"
  by (simp add: omdb_mapped_def)

lemma tmdb_convert_eq:
  "0 \<le> m \<Longrightarrow> tmdb_convert items m rs =
     (if int (length (tmdb_mapped items)) \<le> m then m - int (length (tmdb_mapped items)) else - 1,
      rs @ take (nat m) (tmdb_mapped items))"
proof (induction items arbitrary: m rs)
  case Nil
  then show ?case by (simp add: tmdb_mapped_def)
next
  case (Cons x xs)
  show ?case
  proof (cases "tmdb_resultType (t_Type x)")
    case None
    then show ?thesis using Cons.IH [OF Cons.prems] by (simp add: tmdb_mapped_Cons)
  next
    case (Some ty)
    show ?thesis
    proof (cases "m = 0")
      case True
      then show ?thesis using Some by (simp add: tmdb_mapped_Cons)
    next
      case False
      with Cons.prems have m: "0 \<le> m - 1" by simp
      show ?thesis using m False Cons.prems Some
        by (simp add: Cons.IH [OF m] take_nat_Cons Let_def tmdb_mapped_Cons)
    qed
  qed
qed

lemma omdb_searchPage_shape:
  assumes "0 < m" and "omdb_searchPage client q m p rs calls = (r, rs', calls')"
  shows "calls' = calls @ [(q, p)] \<and>
         (\<forall>b. r = Inr b \<longrightarrow>
            rs' = rs @ take (nat m) (omdb_page client q p) \<and>
            (b \<longrightarrow> int (length (omdb_page client q p)) < m))"
  using assms
  by (auto simp: omdb_searchPage_def omdb_page_def omdb_convert_eq omdb_mapped_def
           split: do_result.splits body.splits if_splits sum.splits)

lemma tmdb_searchPage_shape:
  assumes "0 < m" and "tmdb_searchPage client q m p rs calls = (r, rs', calls')"
  shows "calls' = calls @ [(q, p)] \<and>
         (\<forall>b. r = Inr b \<longrightarrow>
            rs' = rs @ take (nat m) (tmdb_page client q p) \<and>
            (b \<longrightarrow> int (length (tmdb_page client q p)) < m))"
  using assms
  by (auto simp: tmdb_searchPage_def tmdb_page_def tmdb_convert_eq
           split: do_result.splits body.splits if_splits sum.splits)

section \<open>Printing and parsing decimal numbers\<close>

text \<open>What \<^verbatim>\<open>%d\<close> prints for an integer that fits a 64-bit \<^verbatim>\<open>int\<close>, \<^verbatim>\<open>strconv.Atoi\<close> reads back.\<close>

lemma digit_char_val: "d < 10 \<Longrightarrow> (of_char (digit_char d) :: int) = 48 + int d"
proof -
  assume d: "d < 10"
  have "(of_char (digit_char d) :: nat) = 48 + d"
    using d by (simp add: digit_char_def)
  then have "int (of_char (digit_char d)) = int (48 + d)" by (rule arg_cong)
  then show ?thesis by (simp add: of_nat_of_char)
qed

lemma parse_digits_append:
  "parse_digits a (xs @ ys) =
     (case parse_digits a xs of Inl e \<Rightarrow> Inl e | Inr b \<Rightarrow> parse_digits b ys)"
  by (induction xs arbitrary: a) (simp_all add: Let_def)

lemma parse_digits_digit:
  "d < 10 \<Longrightarrow> a * 10 + int d < 2 ^ 64 \<Longrightarrow> parse_digits a [digit_char d] = Inr (a * 10 + int d)"
  by (simp add: is_digit_def digit_char_val Let_def)

lemma parse_digits_fmt_nat: "int n < 2 ^ 64 \<Longrightarrow> parse_digits 0 (fmt_nat n) = Inr (int n)"
proof (induction n rule: fmt_nat.induct)
  case (1 n)
  show ?case
  proof (cases "n < 10")
    case True
    then show ?thesis using "1.prems" parse_digits_digit [of n 0]
      by (simp add: fmt_nat.simps [of n])
  next
    case False
    have small: "int (n div 10) < 2 ^ 64" using "1.prems" by (simp add: zdiv_int) 
    have n: "int (n div 10) * 10 + int (n mod 10) = int n"
      by (simp add: zdiv_int zmod_int)
    have "parse_digits (int (n div 10)) [digit_char (n mod 10)] = Inr (int n)"
      using parse_digits_digit [of "n mod 10" "int (n div 10)"] "1.prems" n by simp
    then show ?thesis using False "1.IH" [OF False small]
      by (simp add: fmt_nat.simps [of n] parse_digits_append)
  qed
qed

lemma fmt_nat_digits: "fmt_nat n \<noteq> [] \<and> is_digit (hd (fmt_nat n))"
proof (induction n rule: fmt_nat.induct)
  case (1 n)
  show ?case
  proof (cases "n < 10")
    case True
    then show ?thesis by (simp add: fmt_nat.simps [of n] is_digit_def digit_char_val)
  next
    case False
    with "1.IH" show ?thesis by (simp add: fmt_nat.simps [of n])
  qed
qed

lemma is_digit_not_sign: "is_digit c \<Longrightarrow> c \<noteq> CHR 0x2B \<and> c \<noteq> CHR 0x2D"
  by (auto simp: is_digit_def)

lemma Atoi_fmt_d: "0 \<le> i \<Longrightarrow> i < 2 ^ 63 \<Longrightarrow> Atoi (fmt_d i) = Inr i"
proof -
  assume i: "0 \<le> i" "i < 2 ^ 63"
  have f: "fmt_d i = fmt_nat (nat i)" using i by (simp add: fmt_d_def)
  have p: "parse_digits 0 (fmt_nat (nat i)) = Inr i"
    using parse_digits_fmt_nat [of "nat i"] i by simp
  from fmt_nat_digits [of "nat i"] is_digit_not_sign [of "hd (fmt_nat (nat i))"]
  show ?thesis using i by (simp add: Atoi_def f p)
qed

section \<open>The pagination loop\<close>

text \<open>
  Whatever the provider answers, a loop that returns has asked for the pages
  \<open>p, p + 1, \<dots>, n\<close> in this order, and its result is the slice it started from followed
  by what these pages offer, in page order, cut at \<open>maxResults\<close> entries.
\<close>

lemma upto_from: "p \<le> n \<Longrightarrow> [p..n] = p # [p + 1..n]"
  by (simp add: upto_rec1)

lemma omdb_loop_trace:
  "omdb_loop client q M p rs calls = Some y \<Longrightarrow> int (length rs) \<le> M \<Longrightarrow>
     (\<exists>n. p - 1 \<le> n \<and> snd y = calls @ map (Pair q) [p..n] \<and>
        (\<forall>res. fst y = Inr res \<longrightarrow>
           res = take (nat M) (rs @ concat (map (omdb_page client q) [p..n]))))"
proof (induction rule: omdb_loop.raw_induct [rotated 1, consumes 1])
  case (1 loop client q M p rs calls y)
  show ?case
  proof (cases "int (length rs) < M")
    case False
    with 1 have "y = (Inr rs, calls)" and "length rs = nat M" by auto
    then have "p - 1 \<le> p - 1 \<and> snd y = calls @ map (Pair q) [p..p - 1] \<and>
        (\<forall>res. fst y = Inr res \<longrightarrow>
           res = take (nat M) (rs @ concat (map (omdb_page client q) [p..p - 1])))"
      by simp
    then show ?thesis by blast
  next
    case True
    define m where "m = M - int (length rs)"
    have m: "0 < m" using True by (simp add: m_def)
    obtain r rs' calls' where sp: "omdb_searchPage client q m p rs calls = (r, rs', calls')"
      by (cases "omdb_searchPage client q m p rs calls") auto
    note shape = omdb_searchPage_shape [OF m sp]
    have tk: "rs @ take (nat m) xs = take (nat M) (rs @ xs)" for xs :: "SearchResult list"
      using True by (simp add: m_def nat_diff_distrib)
    show ?thesis
    proof (cases r)
      case (Inl err)
      with 1(2) True sp have "y = (Inl err, calls')" by (simp add: m_def)
      with shape have "p - 1 \<le> p \<and> snd y = calls @ map (Pair q) [p..p] \<and>
        (\<forall>res. fst y = Inr res \<longrightarrow>
           res = take (nat M) (rs @ concat (map (omdb_page client q) [p..p])))"
        by simp
      then show ?thesis by blast
    next
      case (Inr b)
      with shape have rs': "rs' = rs @ take (nat m) (omdb_page client q p)"
        and calls': "calls' = calls @ [(q, p)]"
        and more: "b \<Longrightarrow> int (length (omdb_page client q p)) < m" by auto
      show ?thesis
      proof (cases b)
        case False
        with 1(2) True sp Inr have "y = (Inr rs', calls')" by (simp add: m_def)
        with rs' calls' tk have "p - 1 \<le> p \<and> snd y = calls @ map (Pair q) [p..p] \<and>
          (\<forall>res. fst y = Inr res \<longrightarrow>
             res = take (nat M) (rs @ concat (map (omdb_page client q) [p..p])))"
          by simp
        then show ?thesis by blast
      next
        case b: True
        with 1(2) True sp Inr have rec: "loop client q M (p + 1) rs' calls' = Some y"
          by (simp add: m_def)
        from more [OF b] have full: "rs' = rs @ omdb_page client q p"
          using rs' by simp
        with more [OF b] have len: "int (length rs') \<le> M" by (simp add: m_def)
        from 1(1) [OF rec len] obtain n where n: "p \<le> n"
          and c: "snd y = calls' @ map (Pair q) [p + 1..n]"
          and r: "\<forall>res. fst y = Inr res \<longrightarrow>
             res = take (nat M) (rs' @ concat (map (omdb_page client q) [p + 1..n]))"
          by auto
        have "p - 1 \<le> n \<and> snd y = calls @ map (Pair q) [p..n] \<and>
          (\<forall>res. fst y = Inr res \<longrightarrow>
             res = take (nat M) (rs @ concat (map (omdb_page client q) [p..n])))"
          using n c r by (simp add: upto_from [OF n] calls' full)
        then show ?thesis by blast
      qed
    qed
  qed
qed

lemma tmdb_loop_trace:
  "tmdb_loop client q M p rs calls = Some y \<Longrightarrow> int (length rs) \<le> M \<Longrightarrow>
     (\<exists>n. p - 1 \<le> n \<and> snd y = calls @ map (Pair q) [p..n] \<and>
        (\<forall>res. fst y = Inr res \<longrightarrow>
           res = take (nat M) (rs @ concat (map (tmdb_page client q) [p..n]))))"
proof (induction rule: tmdb_loop.raw_induct [rotated 1, consumes 1])
  case (1 loop client q M p rs calls y)
  show ?case
  proof (cases "int (length rs) < M")
    case False
    with 1 have "y = (Inr rs, calls)" and "length rs = nat M" by auto
    then have "p - 1 \<le> p - 1 \<and> snd y = calls @ map (Pair q) [p..p - 1] \<and>
        (\<forall>res. fst y = Inr res \<longrightarrow>
           res = take (nat M) (rs @ concat (map (tmdb_page client q) [p..p - 1])))"
      by simp
    then show ?thesis by blast
  next
    case True
    define m where "m = M - int (length rs)"
    have m: "0 < m" using True by (simp add: m_def)
    obtain r rs' calls' where sp: "tmdb_searchPage client q m p rs calls = (r, rs', calls')"
      by (cases "tmdb_searchPage client q m p rs calls") auto
    note shape = tmdb_searchPage_shape [OF m sp]
    have tk: "rs @ take (nat m) xs = take (nat M) (rs @ xs)" for xs :: "SearchResult list"
      using True by (simp add: m_def nat_diff_distrib)
    show ?thesis
    proof (cases r)
      case (Inl err)
      with 1(2) True sp have "y = (Inl err, calls')" by (simp add: m_def)
      with shape have "p - 1 \<le> p \<and> snd y = calls @ map (Pair q) [p..p] \<and>
        (\<forall>res. fst y = Inr res \<longrightarrow>
           res = take (nat M) (rs @ concat (map (tmdb_page client q) [p..p])))"
        by simp
      then show ?thesis by blast
    next
      case (Inr b)
      with shape have rs': "rs' = rs @ take (nat m) (tmdb_page client q p)"
        and calls': "calls' = calls @ [(q, p)]"
        and more: "b \<Longrightarrow> int (length (tmdb_page client q p)) < m" by auto
      show ?thesis
      proof (cases b)
        case False
        with 1(2) True sp Inr have "y = (Inr rs', calls')" by (simp add: m_def)
        with rs' calls' tk have "p - 1 \<le> p \<and> snd y = calls @ map (Pair q) [p..p] \<and>
          (\<forall>res. fst y = Inr res \<longrightarrow>
             res = take (nat M) (rs @ concat (map (tmdb_page client q) [p..p])))"
          by simp
        then show ?thesis by blast
      next
        case b: True
        with 1(2) True sp Inr have rec: "loop client q M (p + 1) rs' calls' = Some y"
          by (simp add: m_def)
        from more [OF b] have full: "rs' = rs @ tmdb_page client q p"
          using rs' by simp
        with more [OF b] have len: "int (length rs') \<le> M" by (simp add: m_def)
        from 1(1) [OF rec len] obtain n where n: "p \<le> n"
          and c: "snd y = calls' @ map (Pair q) [p + 1..n]"
          and r: "\<forall>res. fst y = Inr res \<longrightarrow>
             res = take (nat M) (rs' @ concat (map (tmdb_page client q) [p + 1..n]))"
          by auto
        have "p - 1 \<le> n \<and> snd y = calls @ map (Pair q) [p..n] \<and>
          (\<forall>res. fst y = Inr res \<longrightarrow>
             res = take (nat M) (rs @ concat (map (tmdb_page client q) [p..n])))"
          using n c r by (simp add: upto_from [OF n] calls' full)
        then show ?thesis by blast
      qed
    qed
  qed
qed

section \<open>One iteration of the loop, and Search\<close>

lemma omdb_loop_error:
  assumes "int (length results) < M"
    and "omdb_searchPage client query (M - int (length results)) p results calls = (Inl e, rs', calls')"
  shows "omdb_loop client query M p results calls = Some (Inl e, calls')"
  using assms by (subst omdb_loop.simps) simp

lemma omdb_loop_last:
  assumes "int (length results) < M"
    and "omdb_searchPage client query (M - int (length results)) p results calls = (Inr False, rs', calls')"
  shows "omdb_loop client query M p results calls = Some (Inr rs', calls')"
  using assms by (subst omdb_loop.simps) simp

lemma tmdb_loop_error:
  assumes "int (length results) < M"
    and "tmdb_searchPage client query (M - int (length results)) p results calls = (Inl e, rs', calls')"
  shows "tmdb_loop client query M p results calls = Some (Inl e, calls')"
  using assms by (subst tmdb_loop.simps) simp

lemma tmdb_loop_last:
  assumes "int (length results) < M"
    and "tmdb_searchPage client query (M - int (length results)) p results calls = (Inr False, rs', calls')"
  shows "tmdb_loop client query M p results calls = Some (Inr rs', calls')"
  using assms by (subst tmdb_loop.simps) simp

lemma makeslice_Return:
  "makeslice mem M = Return rs \<longleftrightarrow>
     0 \<le> M \<and> SearchResult_size * M \<le> maxAlloc \<and> mem (SearchResult_size * M) \<and> rs = []"
  by (auto simp: makeslice_def)

lemma makeslice_ex_mem: "0 \<le> M \<Longrightarrow> M \<le> 1000 \<Longrightarrow> makeslice ex_mem M = Return []"
  by (simp add: makeslice_def ex_mem_def SearchResult_size_def maxAlloc_def)

lemma omdb_Search_loop:
  assumes "1 \<le> M" and "makeslice mem M = Return rs"
  shows "omdb_Search mem client query M =
           (case omdb_loop client query M 1 [] [] of
              None \<Rightarrow> None
            | Some (out, calls) \<Rightarrow> Some (Return out, calls))"
proof -
  from assms(2) have "rs = []" by (simp add: makeslice_Return)
  with assms show ?thesis by (simp add: omdb_Search_def)
qed

lemma tmdb_Search_loop:
  assumes "1 \<le> M" and "makeslice mem M = Return rs"
  shows "tmdb_Search mem client query M =
           (case tmdb_loop client query M 1 [] [] of
              None \<Rightarrow> None
            | Some (out, calls) \<Rightarrow> Some (Return out, calls))"
proof -
  from assms(2) have "rs = []" by (simp add: makeslice_Return)
  with assms show ?thesis by (simp add: tmdb_Search_def)
qed

lemma omdb_Search_ex_mem:
  assumes "1 \<le> M" and "M \<le> 1000"
  shows "omdb_Search ex_mem client query M =
           (case omdb_loop client query M 1 [] [] of
              None \<Rightarrow> None
            | Some (out, calls) \<Rightarrow> Some (Return out, calls))"
  using assms by (intro omdb_Search_loop [where rs = "[]"] makeslice_ex_mem) simp_all

lemma tmdb_Search_ex_mem:
  assumes "1 \<le> M" and "M \<le> 1000"
  shows "tmdb_Search ex_mem client query M =
           (case tmdb_loop client query M 1 [] [] of
              None \<Rightarrow> None
            | Some (out, calls) \<Rightarrow> Some (Return out, calls))"
  using assms by (intro tmdb_Search_loop [where rs = "[]"] makeslice_ex_mem) simp_all

lemma omdb_Search_no_return:
  assumes "1 \<le> M" and "\<forall>rs. makeslice mem M \<noteq> Return rs"
  shows "\<exists>out. omdb_Search mem client query M = Some (out, [])"
  using assms by (cases "makeslice mem M") (simp_all add: omdb_Search_def)

lemma tmdb_Search_no_return:
  assumes "1 \<le> M" and "\<forall>rs. makeslice mem M \<noteq> Return rs"
  shows "\<exists>out. tmdb_Search mem client query M = Some (out, [])"
  using assms by (cases "makeslice mem M") (simp_all add: tmdb_Search_def)

lemma omdb_Search_ok:
  assumes "omdb_Search mem client query M = Some (Return (Inr rs), calls)"
  shows "1 \<le> M \<and> makeslice mem M = Return []
       \<and> omdb_loop client query M 1 [] [] = Some (Inr rs, calls)"
  using assms
  by (auto simp: omdb_Search_def makeslice_Return
           split: if_splits outcome.splits option.splits prod.splits)

lemma tmdb_Search_ok:
  assumes "tmdb_Search mem client query M = Some (Return (Inr rs), calls)"
  shows "1 \<le> M \<and> makeslice mem M = Return []
       \<and> tmdb_loop client query M 1 [] [] = Some (Inr rs, calls)"
  using assms
  by (auto simp: tmdb_Search_def makeslice_Return
           split: if_splits outcome.splits option.splits prod.splits)

text \<open>
  The largest \<^verbatim>\<open>int\<close>, \<^verbatim>\<open>math.MaxInt64\<close>, is no capacity the runtime accepts: Search
  panics there, whatever the provider and the memory, and makes no request. The largest
  capacity it accepts is 2932031007402.
\<close>

lemma makeslice_MaxInt64:
  "makeslice mem 9223372036854775807 = Panic ''runtime error: makeslice: cap out of range''"
  by (simp add: makeslice_def SearchResult_size_def maxAlloc_def)

lemma makeslice_limit:
  "(\<exists>msg. makeslice mem M = Panic msg) \<longleftrightarrow> M < 0 \<or> 2932031007402 < M"
  by (auto simp: makeslice_def SearchResult_size_def maxAlloc_def)

lemma omdb_Search_MaxInt64:
  "omdb_Search mem client query 9223372036854775807 =
     Some (Panic ''runtime error: makeslice: cap out of range'', [])"
  by (simp add: omdb_Search_def makeslice_MaxInt64)

lemma tmdb_Search_MaxInt64:
  "tmdb_Search mem client query 9223372036854775807 =
     Some (Panic ''runtime error: makeslice: cap out of range'', [])"
  by (simp add: tmdb_Search_def makeslice_MaxInt64)

lemma fmt_d_0: "fmt_d 0 = ''0''"
  by code_simp

section \<open>The loop against a provider that reports its totals honestly\<close>

lemma take_page: "take (j * k) xs @ take k (drop (j * k) xs) = take (Suc j * k) xs"
proof -
  have "Suc j * k = j * k + k" by simp
  then show ?thesis by (simp only: take_add)
qed

lemma omdb_mapped_length: "length (omdb_mapped xs) = length xs"
  by (simp add: omdb_mapped_def)

lemma omdb_mapped_take: "take n (omdb_mapped xs) = omdb_mapped (take n xs)"
  by (simp add: omdb_mapped_def take_map)

lemma pages_bound: "0 < k \<Longrightarrow> j * k < T \<Longrightarrow> j + 1 \<le> (T + k - 1) div k" for j k T :: nat
  by (simp add: less_eq_div_iff_mult_less_eq algebra_simps)

lemma omdb_searchPage_honest:
  assumes "0 < m" and "int (length corpus) < 2 ^ 63" and "take k (drop (j * k) corpus) \<noteq> []"
  shows "omdb_searchPage (omdb_honest k corpus) q m (int j + 1) rs calls =
     (Inr (int (length (rs @ take (nat m) (omdb_mapped (take k (drop (j * k) corpus))))) < int (length corpus)
           \<and> int (length (take k (drop (j * k) corpus))) < m),
      rs @ take (nat m) (omdb_mapped (take k (drop (j * k) corpus))),
      calls @ [(q, int j + 1)])"
  using assms
  by (simp add: omdb_searchPage_def omdb_honest_def omdb_convert_eq Atoi_fmt_d)

lemma omdb_searchPage_honest_empty:
  assumes "0 < m" and "take k (drop (j * k) corpus) = []"
  shows "omdb_searchPage (omdb_honest k corpus) q m (int j + 1) rs calls =
     (Inr False, rs, calls @ [(q, int j + 1)])"
  using assms by (simp add: omdb_searchPage_def omdb_honest_def)

lemma omdb_honest_loop:
  assumes k: "0 < k" and T: "int (length corpus) < 2 ^ 63"
  shows "rs = omdb_mapped (take (j * k) corpus) \<Longrightarrow> int (j * k) < M \<Longrightarrow>
         j = 0 \<or> j * k < length corpus \<Longrightarrow>
     \<exists>n. j < n \<and> n \<le> max (j + 1) ((length corpus + k - 1) div k) \<and>
        omdb_loop (omdb_honest k corpus) q M (int j + 1) rs calls =
          Some (Inr (omdb_mapped (take (nat M) corpus)), calls @ map (Pair q) [int j + 1..int n])"
proof (induction "length corpus - j * k" arbitrary: j rs calls rule: less_induct)
  case less
  define a where "a = j * k"
  define items where "items = take k (drop a corpus)"
  define m where "m = M - int a"
  define rs' where "rs' = rs @ take (nat m) (omdb_mapped items)"
  have rs: "rs = omdb_mapped (take a corpus)" and aM: "int a < M"
    and a: "j = 0 \<or> a < length corpus"
    using less.prems by (simp_all add: a_def)
  have a0: "a \<le> length corpus" using a by (auto simp: a_def)
  have sa: "Suc j * k = a + k" by (simp add: a_def)
  have m: "0 < m" using aM by (simp add: m_def)
  have lrs: "length rs = a" using rs a0 by (simp add: omdb_mapped_length)
  have litems: "length items = min k (length corpus - a)" by (simp add: items_def)
  have sp: "omdb_searchPage (omdb_honest k corpus) q (M - int (length rs)) (int j + 1) rs calls =
     (Inr (int (length rs') < int (length corpus) \<and> int (length items) < m), rs',
      calls @ [(q, int j + 1)])"
  proof (cases "items = []")
    case True
    then have "rs' = rs" by (simp add: rs'_def omdb_mapped_def)
    moreover from True litems k have "length corpus \<le> a" by (simp add: min_def split: if_splits)
    then have "\<not> int (length rs') < int (length corpus)" using \<open>rs' = rs\<close> lrs by simp
    moreover have "take k (drop (j * k) corpus) = []" using True by (simp add: items_def a_def)
    ultimately show ?thesis
      using omdb_searchPage_honest_empty [OF m, of k j corpus q rs calls]
      by (simp add: lrs m_def)
  next
    case False
    then have "take k (drop (j * k) corpus) \<noteq> []" by (simp add: items_def a_def)
    from omdb_searchPage_honest [OF m T this, of q rs calls]
    show ?thesis by (simp add: lrs m_def rs'_def items_def a_def)
  qed
  have guard: "int (length rs) < M" using aM lrs by simp
  have whole: "int (length items) < m \<Longrightarrow> rs' = omdb_mapped (take (Suc j * k) corpus)"
  proof -
    assume "int (length items) < m"
    then have "take (nat m) (omdb_mapped items) = omdb_mapped items"
      by (simp add: omdb_mapped_length)
    then have "rs' = omdb_mapped (take (j * k) corpus @ take k (drop (j * k) corpus))"
      using rs by (simp add: rs'_def omdb_mapped_append items_def a_def)
    then show ?thesis by (simp only: take_page)
  qed
  have lwhole: "int (length items) < m \<Longrightarrow> length rs' = a + length items"
    by (simp add: rs'_def lrs omdb_mapped_length)
  show ?case
  proof (cases "int (length rs') < int (length corpus) \<and> int (length items) < m")
    case True
    then have short: "int (length items) < m" by simp
    note full = whole [OF short] and lrs' = lwhole [OF short]
    from True lrs' litems have next_lt: "a + k < length corpus" by arith
    have room: "int (a + k) < M" using short litems next_lt m_def by arith
    have dec: "length corpus - Suc j * k < length corpus - j * k"
      using next_lt k by (simp add: a_def)
    have room': "int (Suc j * k) < M" using room by (simp only: sa)
    have "Suc j * k < length corpus" using next_lt by (simp only: sa)
    then have next_lt': "Suc j = 0 \<or> Suc j * k < length corpus" by (rule disjI2)
    from less.hyps [OF dec full room' next_lt', of "calls @ [(q, int j + 1)]"]
    obtain n where n: "Suc j < n" "n \<le> max (Suc j + 1) ((length corpus + k - 1) div k)"
      and res: "omdb_loop (omdb_honest k corpus) q M (int (Suc j) + 1) rs' (calls @ [(q, int j + 1)]) =
          Some (Inr (omdb_mapped (take (nat M) corpus)),
                (calls @ [(q, int j + 1)]) @ map (Pair q) [int (Suc j) + 1..int n])"
      by auto
    have "Suc j * k < length corpus" using next_lt by (simp only: sa)
    from pages_bound [OF k this] have pb: "Suc j + 1 \<le> (length corpus + k - 1) div k" .
    have up: "[int j + 1..int n] = (int j + 1) # [int (Suc j) + 1..int n]"
      using n(1) by (simp add: upto_rec1)
    have step: "omdb_loop (omdb_honest k corpus) q M (int j + 1) rs calls =
          omdb_loop (omdb_honest k corpus) q M (int (Suc j) + 1) rs' (calls @ [(q, int j + 1)])"
      using guard sp True by (subst omdb_loop.simps) simp
    have "omdb_loop (omdb_honest k corpus) q M (int j + 1) rs calls =
          Some (Inr (omdb_mapped (take (nat M) corpus)), calls @ map (Pair q) [int j + 1..int n])"
      unfolding step res up by simp
    moreover have "j < n" using n(1) by simp
    moreover have "n \<le> max (j + 1) ((length corpus + k - 1) div k)" using n(2) pb by simp
    ultimately show ?thesis by blast
  next
    case False
    have e: "int (Suc j) = int j + 1" by simp
    have single: "[int j + 1..int (Suc j)] = [int j + 1]" unfolding e by simp
    have "omdb_loop (omdb_honest k corpus) q M (int j + 1) rs calls =
          Some (Inr rs', calls @ [(q, int j + 1)])"
      using guard sp False by (subst omdb_loop.simps) simp
    then have stop: "omdb_loop (omdb_honest k corpus) q M (int j + 1) rs calls =
          Some (Inr rs', calls @ map (Pair q) [int j + 1..int (Suc j)])"
      unfolding single by simp
    have "rs' = omdb_mapped (take (nat M) corpus)"
    proof (cases "int (length items) < m")
      case short: True
      note full = whole [OF short] and lrs' = lwhole [OF short]
      from False short have ge: "length corpus \<le> length rs'" by simp
      have "length corpus \<le> a + k" using ge lrs' litems by arith
      then have "length corpus \<le> Suc j * k" by (simp only: sa)
      moreover have "length corpus \<le> nat M" using ge lrs' short m_def by arith
      ultimately show ?thesis using full by simp
    next
      case long: False
      then have mk: "nat m \<le> k" "nat m \<le> length corpus - a"
        using litems by arith+
      have "take (nat m) items = take (nat m) (drop a corpus)"
        using mk by (simp add: items_def min_def)
      then have "rs' = omdb_mapped (take a corpus @ take (nat m) (drop a corpus))"
        using rs by (simp add: rs'_def omdb_mapped_take omdb_mapped_append)
      then have "rs' = omdb_mapped (take (a + nat m) corpus)"
        by (simp only: take_add)
      moreover have "a + nat m = nat M" using m aM m_def by arith
      ultimately show ?thesis by simp
    qed
    with stop show ?thesis by (intro exI [of _ "Suc j"]) simp
  qed
qed

lemma pages_cover: "0 < k \<Longrightarrow> T \<le> ((T + k - 1) div k) * k" for k T :: nat
proof -
  assume k: "0 < k"
  have "(T + k - 1) mod k < k" using k by simp
  moreover have "(T + k - 1) div k * k + (T + k - 1) mod k = T + k - 1" by simp
  ultimately show ?thesis by arith
qed

lemma tmdb_searchPage_honest:
  assumes "0 < m"
  shows "tmdb_searchPage (tmdb_honest k corpus) q m (int j + 1) rs calls =
     (Inr (int j + 1 < int ((length corpus + k - 1) div k)
           \<and> int (length (tmdb_mapped (take k (drop (j * k) corpus)))) < m),
      rs @ take (nat m) (tmdb_mapped (take k (drop (j * k) corpus))),
      calls @ [(q, int j + 1)])"
  using assms
  by (auto simp: tmdb_searchPage_def tmdb_honest_def tmdb_convert_eq max_def)

lemma tmdb_honest_loop:
  assumes k: "0 < k"
  shows "rs = tmdb_mapped (take (j * k) corpus) \<Longrightarrow> int (length rs) < M \<Longrightarrow>
     \<exists>n. j < n \<and> n \<le> max (j + 1) ((length corpus + k - 1) div k) \<and>
        tmdb_loop (tmdb_honest k corpus) q M (int j + 1) rs calls =
          Some (Inr (take (nat M) (tmdb_mapped corpus)), calls @ map (Pair q) [int j + 1..int n])"
proof (induction "(length corpus + k - 1) div k - j" arbitrary: j rs calls rule: less_induct)
  case less
  define P where "P = (length corpus + k - 1) div k"
  define items where "items = take k (drop (j * k) corpus)"
  define m where "m = M - int (length rs)"
  define rs' where "rs' = rs @ take (nat m) (tmdb_mapped items)"
  note rs = less.prems(1) and guard = less.prems(2)
  have m: "0 < m" using guard by (simp add: m_def)
  have sp: "tmdb_searchPage (tmdb_honest k corpus) q (M - int (length rs)) (int j + 1) rs calls =
     (Inr (int j + 1 < int P \<and> int (length (tmdb_mapped items)) < m), rs',
      calls @ [(q, int j + 1)])"
    using tmdb_searchPage_honest [OF m, of k corpus q j rs calls]
    by (simp add: m_def rs'_def items_def P_def)
  have page: "rs @ tmdb_mapped items = tmdb_mapped (take (Suc j * k) corpus)"
    unfolding rs items_def by (simp only: take_page flip: tmdb_mapped_append)
  have whole: "int (length (tmdb_mapped items)) < m \<Longrightarrow> rs' = tmdb_mapped (take (Suc j * k) corpus)"
    using page by (simp add: rs'_def)
  show ?case
  proof (cases "int j + 1 < int P \<and> int (length (tmdb_mapped items)) < m")
    case True
    then have short: "int (length (tmdb_mapped items)) < m" and jP: "Suc j < P" by simp_all
    note full = whole [OF short]
    have room: "int (length rs') < M" using short by (simp add: rs'_def m_def)
    have dec: "(length corpus + k - 1) div k - Suc j < (length corpus + k - 1) div k - j"
      using jP by (simp add: P_def)
    from less.hyps [OF dec full room, of "calls @ [(q, int j + 1)]"]
    obtain n where n: "Suc j < n" "n \<le> max (Suc j + 1) P"
      and res: "tmdb_loop (tmdb_honest k corpus) q M (int (Suc j) + 1) rs' (calls @ [(q, int j + 1)]) =
          Some (Inr (take (nat M) (tmdb_mapped corpus)),
                (calls @ [(q, int j + 1)]) @ map (Pair q) [int (Suc j) + 1..int n])"
      by (auto simp: P_def)
    have up: "[int j + 1..int n] = (int j + 1) # [int (Suc j) + 1..int n]"
      using n(1) by (simp add: upto_rec1)
    have step: "tmdb_loop (tmdb_honest k corpus) q M (int j + 1) rs calls =
          tmdb_loop (tmdb_honest k corpus) q M (int (Suc j) + 1) rs' (calls @ [(q, int j + 1)])"
      using guard sp True by (subst tmdb_loop.simps) simp
    have "tmdb_loop (tmdb_honest k corpus) q M (int j + 1) rs calls =
          Some (Inr (take (nat M) (tmdb_mapped corpus)), calls @ map (Pair q) [int j + 1..int n])"
      unfolding step res up by simp
    moreover have "j < n" using n(1) by simp
    moreover have "n \<le> max (j + 1) ((length corpus + k - 1) div k)"
      using n(2) jP by (simp add: P_def)
    ultimately show ?thesis by blast
  next
    case False
    have e: "int (Suc j) = int j + 1" by simp
    have single: "[int j + 1..int (Suc j)] = [int j + 1]" unfolding e by simp
    have "tmdb_loop (tmdb_honest k corpus) q M (int j + 1) rs calls =
          Some (Inr rs', calls @ [(q, int j + 1)])"
      using guard sp False by (subst tmdb_loop.simps) simp
    then have stop: "tmdb_loop (tmdb_honest k corpus) q M (int j + 1) rs calls =
          Some (Inr rs', calls @ map (Pair q) [int j + 1..int (Suc j)])"
      unfolding single by simp
    have "rs' = take (nat M) (tmdb_mapped corpus)"
    proof (cases "int (length (tmdb_mapped items)) < m")
      case short: True
      note full = whole [OF short]
      from False short have "P \<le> Suc j" by simp
      then have "P * k \<le> Suc j * k" by (rule mult_le_mono1)
      with pages_cover [OF k, of "length corpus"] have "length corpus \<le> Suc j * k"
        by (simp add: P_def)
      then have all: "rs' = tmdb_mapped corpus" using full by simp
      have "int (length rs') < M" using short by (simp add: rs'_def m_def)
      then show ?thesis using all by simp
    next
      case long: False
      have M: "nat M = length rs + nat m" using m guard by (simp add: m_def)
      have cut: "rs' = take (nat M) (rs @ tmdb_mapped items)"
        by (simp add: rs'_def M)
      have split: "tmdb_mapped corpus =
          tmdb_mapped (take (Suc j * k) corpus) @ tmdb_mapped (drop (Suc j * k) corpus)"
        by (simp flip: tmdb_mapped_append)
      have "length (tmdb_mapped (take (Suc j * k) corpus)) = length rs + length (tmdb_mapped items)"
        by (simp only: length_append flip: page)
      then have "nat M \<le> length (tmdb_mapped (take (Suc j * k) corpus))"
        using long M by arith
      then have "take (nat M) (tmdb_mapped corpus) = take (nat M) (tmdb_mapped (take (Suc j * k) corpus))"
        by (subst split) simp
      then show ?thesis using cut page by simp
    qed
    with stop show ?thesis by (intro exI [of _ "Suc j"]) simp
  qed
qed

section \<open>Search against an honest provider\<close>

lemma omdb_Search_bound:
  assumes "omdb_Search mem client query M = Some (Return (Inr rs), calls)"
  shows "int (length rs) \<le> M"
proof -
  from omdb_Search_ok [OF assms] have M: "1 \<le> M"
    and l: "omdb_loop client query M 1 [] [] = Some (Inr rs, calls)" by simp_all
  from omdb_loop_trace [OF l] M obtain n where
    "rs = take (nat M) (concat (map (omdb_page client query) [1..n]))" by auto
  then show ?thesis using M by simp
qed

lemma tmdb_Search_bound:
  assumes "tmdb_Search mem client query M = Some (Return (Inr rs), calls)"
  shows "int (length rs) \<le> M"
proof -
  from tmdb_Search_ok [OF assms] have M: "1 \<le> M"
    and l: "tmdb_loop client query M 1 [] [] = Some (Inr rs, calls)" by simp_all
  from tmdb_loop_trace [OF l] M obtain n where
    "rs = take (nat M) (concat (map (tmdb_page client query) [1..n]))" by auto
  then show ?thesis using M by simp
qed

lemma omdb_loop_honest:
  assumes "0 < k" and "1 \<le> M" and "int (length corpus) < 2 ^ 63"
  shows "\<exists>n. 0 < n \<and> n \<le> max 1 ((length corpus + k - 1) div k) \<and>
           omdb_loop (omdb_honest k corpus) query M 1 [] [] =
             Some (Inr (omdb_mapped (take (nat M) corpus)), map (Pair query) [1..int n])"
proof -
  have "[] = omdb_mapped (take (0 * k) corpus)" by (simp add: omdb_mapped_def)
  moreover have "int (0 * k) < M" using assms(2) by simp
  ultimately obtain n where "0 < n" "n \<le> max (0 + 1) ((length corpus + k - 1) div k)"
    "omdb_loop (omdb_honest k corpus) query M (int 0 + 1) [] [] =
       Some (Inr (omdb_mapped (take (nat M) corpus)), [] @ map (Pair query) [int 0 + 1..int n])"
    using omdb_honest_loop [OF assms(1) assms(3), of "[]" 0 M query "[]"] by blast
  then show ?thesis by auto
qed

lemma tmdb_loop_honest:
  assumes "0 < k" and "1 \<le> M"
  shows "\<exists>n. 0 < n \<and> n \<le> max 1 ((length corpus + k - 1) div k) \<and>
           tmdb_loop (tmdb_honest k corpus) query M 1 [] [] =
             Some (Inr (take (nat M) (tmdb_mapped corpus)), map (Pair query) [1..int n])"
proof -
  have "[] = tmdb_mapped (take (0 * k) corpus)" by (simp add: tmdb_mapped_def)
  moreover have "int (length ([] :: SearchResult list)) < M" using assms(2) by simp
  ultimately obtain n where "0 < n" "n \<le> max (0 + 1) ((length corpus + k - 1) div k)"
    "tmdb_loop (tmdb_honest k corpus) query M (int 0 + 1) [] [] =
       Some (Inr (take (nat M) (tmdb_mapped corpus)), [] @ map (Pair query) [int 0 + 1..int n])"
    using tmdb_honest_loop [OF assms(1), of "[]" 0 corpus M query "[]"] by blast
  then show ?thesis by auto
qed

lemma omdb_Search_honest:
  assumes "0 < k" and "1 \<le> M" and "int (length corpus) < 2 ^ 63"
    and "makeslice mem M = Return []"
  shows "\<exists>n. 0 < n \<and> n \<le> max 1 ((length corpus + k - 1) div k) \<and>
           omdb_Search mem (omdb_honest k corpus) query M =
             Some (Return (Inr (omdb_mapped (take (nat M) corpus))), map (Pair query) [1..int n])"
  using omdb_loop_honest [OF assms(1-3), of query] omdb_Search_loop [OF assms(2) assms(4)]
  by auto

lemma tmdb_Search_honest:
  assumes "0 < k" and "1 \<le> M" and "makeslice mem M = Return []"
  shows "\<exists>n. 0 < n \<and> n \<le> max 1 ((length corpus + k - 1) div k) \<and>
           tmdb_Search mem (tmdb_honest k corpus) query M =
             Some (Return (Inr (take (nat M) (tmdb_mapped corpus))), map (Pair query) [1..int n])"
  using tmdb_loop_honest [OF assms(1-2), of corpus query] tmdb_Search_loop [OF assms(2) assms(3)]
  by auto

lemma tmdb_mapped_length:
  "length (tmdb_mapped items) = length (filter (\<lambda>r. t_Type r = ''movie'' \<or> t_Type r = ''tv'') items)"
proof (induction items)
  case Nil
  show ?case by (simp add: tmdb_mapped_def)
next
  case (Cons r items)
  then show ?case by (simp add: tmdb_mapped_Cons tmdb_resultType_def)
qed

lemma tmdb_convert_filter:
  "tmdb_convert (filter (\<lambda>r. t_Type r = ''movie'' \<or> t_Type r = ''tv'') items) m rs =
     tmdb_convert items m rs"
  by (induction items arbitrary: m rs) (auto simp: tmdb_resultType_def Let_def)

lemma min_quota: "1 \<le> M \<Longrightarrow> int (min n (nat M)) = (if M \<le> int n then M else int n)"
  by (auto simp: min_def)

section \<open>The loop against a provider that always claims more\<close>

text \<open>
  Nothing in Search bounds the number of pages: against a provider whose pages are empty
  and always announce more, the loop never returns.
\<close>

lemma omdb_searchPage_dishonest:
  "0 < m \<Longrightarrow> omdb_searchPage ex_omdb_dishonest q m p [] calls = (Inr True, [], calls @ [(q, p)])"
  by (simp add: omdb_searchPage_def ex_omdb_dishonest_def Atoi_def is_digit_def)

lemma omdb_loop_dishonest:
  assumes "omdb_loop client q M p rs calls = Some y"
  shows "client = ex_omdb_dishonest \<and> rs = [] \<and> 1 \<le> M \<longrightarrow> False"
  using assms
proof (induction rule: omdb_loop.raw_induct [rotated 1, consumes 1])
  case (1 loop client q M p rs calls y)
  show ?case
  proof
    assume h: "client = ex_omdb_dishonest \<and> rs = [] \<and> 1 \<le> M"
    then have "0 < M - int (length rs)" by simp
    from omdb_searchPage_dishonest [OF this, of q p calls] h
    have "omdb_searchPage client q (M - int (length rs)) p rs calls = (Inr True, [], calls @ [(q, p)])"
      by simp
    with 1(2) h have "loop client q M (p + 1) [] (calls @ [(q, p)]) = Some y" by simp
    from 1(1) [OF this] h show False by simp
  qed
qed

lemma omdb_Search_dishonest:
  assumes M: "1 \<le> M" and "makeslice mem M = Return []"
  shows "omdb_Search mem ex_omdb_dishonest q M = None"
proof (rule ccontr)
  assume "omdb_Search mem ex_omdb_dishonest q M \<noteq> None"
  then obtain y where "omdb_loop ex_omdb_dishonest q M 1 [] [] = Some y"
    by (auto simp: omdb_Search_loop [OF assms] split: option.splits)
  from omdb_loop_dishonest [OF this] M show False by simp
qed

lemma tmdb_searchPage_dishonest:
  "0 < m \<Longrightarrow> tmdb_searchPage ex_tmdb_dishonest q m p [] calls = (Inr True, [], calls @ [(q, p)])"
  by (simp add: tmdb_searchPage_def ex_tmdb_dishonest_def)

lemma tmdb_loop_dishonest:
  assumes "tmdb_loop client q M p rs calls = Some y"
  shows "client = ex_tmdb_dishonest \<and> rs = [] \<and> 1 \<le> M \<longrightarrow> False"
  using assms
proof (induction rule: tmdb_loop.raw_induct [rotated 1, consumes 1])
  case (1 loop client q M p rs calls y)
  show ?case
  proof
    assume h: "client = ex_tmdb_dishonest \<and> rs = [] \<and> 1 \<le> M"
    then have "0 < M - int (length rs)" by simp
    from tmdb_searchPage_dishonest [OF this, of q p calls] h
    have "tmdb_searchPage client q (M - int (length rs)) p rs calls = (Inr True, [], calls @ [(q, p)])"
      by simp
    with 1(2) h have "loop client q M (p + 1) [] (calls @ [(q, p)]) = Some y" by simp
    from 1(1) [OF this] h show False by simp
  qed
qed

lemma tmdb_Search_dishonest:
  assumes M: "1 \<le> M" and "makeslice mem M = Return []"
  shows "tmdb_Search mem ex_tmdb_dishonest q M = None"
proof (rule ccontr)
  assume "tmdb_Search mem ex_tmdb_dishonest q M \<noteq> None"
  then obtain y where "tmdb_loop ex_tmdb_dishonest q M 1 [] [] = Some y"
    by (auto simp: tmdb_Search_loop [OF assms] split: option.splits)
  from tmdb_loop_dishonest [OF this] M show False by simp
qed

section \<open>The claims\<close>

text \<open>
  C1, as stated, fails for TMDB: the provider's totals count every entry of the corpus,
  and the adapter skips the entries that are neither a film nor a series. An honest
  provider with a corpus of two entries, a film and a person, asked for two results:
  the corpus is as large as the quota, and Search returns one result.
\<close>

theorem C1_tmdb_person_counterexample:
  "tmdb_Search ex_mem (tmdb_honest 20 ex_tmdb_corpus) ''Alien'' 2 =
     Some (Return (Inr [tmdb_SearchResult (ex_tmdb ''Alien'' ''movie'' 348) Movie]), [(''Alien'', 1)])
   \<and> length ex_tmdb_corpus = 2
   \<and> length [tmdb_SearchResult (ex_tmdb ''Alien'' ''movie'' 348) Movie] \<noteq> 2"
  by code_simp

text \<open>
  C1, amended. A Search of either adapter that returns without an error returns at most
  \<open>maxResults\<close> entries. When it has returned without an error against an honest OMDB
  provider with a corpus of \<open>T\<close> items (fewer than \<open>2^63\<close>, so that the total is an
  \<^verbatim>\<open>int\<close>), it has returned \<open>maxResults\<close> entries if \<open>T \<ge> maxResults\<close> and \<open>T\<close>
  otherwise. Against an honest TMDB provider the same holds with \<open>T\<close> the number of
  corpus entries whose media_type is \<^verbatim>\<open>movie\<close> or \<^verbatim>\<open>tv\<close>. (Search does return without
  an error against these providers whenever the allocation of its slice returns: lemmas
  \<open>omdb_Search_honest\<close> and \<open>tmdb_Search_honest\<close>; it panics for a \<open>maxResults\<close> beyond
  the limit of the runtime, lemma \<open>makeslice_limit\<close>.)
\<close>

theorem C1_result_count:
  "(omdb_Search mem oclient query M = Some (Return (Inr ors), ocalls) \<longrightarrow> int (length ors) \<le> M)
   \<and> (tmdb_Search mem tclient query M = Some (Return (Inr trs), tcalls) \<longrightarrow> int (length trs) \<le> M)
   \<and> (0 < k \<and> int (length ocorpus) < 2 ^ 63
       \<and> omdb_Search mem (omdb_honest k ocorpus) query M = Some (Return (Inr ohrs), ohcalls) \<longrightarrow>
        int (length ohrs) = (if M \<le> int (length ocorpus) then M else int (length ocorpus)))
   \<and> (0 < k
       \<and> tmdb_Search mem (tmdb_honest k tcorpus) query M = Some (Return (Inr thrs), thcalls) \<longrightarrow>
        int (length thrs) =
          (if M \<le> int (length (filter (\<lambda>r. t_Type r = ''movie'' \<or> t_Type r = ''tv'') tcorpus))
           then M
           else int (length (filter (\<lambda>r. t_Type r = ''movie'' \<or> t_Type r = ''tv'') tcorpus))))"
proof -
  have o: "int (length ohrs) = (if M \<le> int (length ocorpus) then M else int (length ocorpus))"
    if h: "0 < k \<and> int (length ocorpus) < 2 ^ 63
           \<and> omdb_Search mem (omdb_honest k ocorpus) query M = Some (Return (Inr ohrs), ohcalls)"
  proof -
    from h omdb_Search_ok [of mem "omdb_honest k ocorpus" query M ohrs ohcalls]
    have M: "1 \<le> M"
      and l: "omdb_loop (omdb_honest k ocorpus) query M 1 [] [] = Some (Inr ohrs, ohcalls)"
      by simp_all
    from h M omdb_loop_honest [of k M ocorpus query] obtain n where
      "omdb_loop (omdb_honest k ocorpus) query M 1 [] [] =
         Some (Inr (omdb_mapped (take (nat M) ocorpus)), map (Pair query) [1..int n])"
      by blast
    with l have "ohrs = omdb_mapped (take (nat M) ocorpus)" by simp
    moreover have "int (length (omdb_mapped (take (nat M) ocorpus))) =
            (if M \<le> int (length ocorpus) then M else int (length ocorpus))"
      using M by (simp only: omdb_mapped_length length_take min_quota)
    ultimately show ?thesis by simp
  qed
  have t: "int (length thrs) =
          (if M \<le> int (length (filter (\<lambda>r. t_Type r = ''movie'' \<or> t_Type r = ''tv'') tcorpus))
           then M
           else int (length (filter (\<lambda>r. t_Type r = ''movie'' \<or> t_Type r = ''tv'') tcorpus)))"
    if h: "0 < k
           \<and> tmdb_Search mem (tmdb_honest k tcorpus) query M = Some (Return (Inr thrs), thcalls)"
  proof -
    from h tmdb_Search_ok [of mem "tmdb_honest k tcorpus" query M thrs thcalls]
    have M: "1 \<le> M"
      and l: "tmdb_loop (tmdb_honest k tcorpus) query M 1 [] [] = Some (Inr thrs, thcalls)"
      by simp_all
    from h M tmdb_loop_honest [of k M tcorpus query] obtain n where
      "tmdb_loop (tmdb_honest k tcorpus) query M 1 [] [] =
         Some (Inr (take (nat M) (tmdb_mapped tcorpus)), map (Pair query) [1..int n])"
      by blast
    with l have "thrs = take (nat M) (tmdb_mapped tcorpus)" by simp
    moreover have "int (length (take (nat M) (tmdb_mapped tcorpus))) =
            (if M \<le> int (length (filter (\<lambda>r. t_Type r = ''movie'' \<or> t_Type r = ''tv'') tcorpus))
             then M
             else int (length (filter (\<lambda>r. t_Type r = ''movie'' \<or> t_Type r = ''tv'') tcorpus)))"
      using M by (simp only: length_take min_quota flip: tmdb_mapped_length)
    ultimately show ?thesis by simp
  qed
  from o t omdb_Search_bound tmdb_Search_bound show ?thesis by blast
qed

theorem C1_result_count_witness:
  "omdb_Search ex_mem (omdb_honest 3 ex_omdb_corpus) ''Test'' 5 =
     Some (Return (Inr (omdb_mapped (take 5 ex_omdb_corpus))), [(''Test'', 1), (''Test'', 2)])
   \<and> tmdb_Search ex_mem (tmdb_honest 3 ex_tmdb_pages) ''Test'' 5 =
     Some (Return (Inr (tmdb_mapped ex_tmdb_pages)), [(''Test'', 1), (''Test'', 2)])
   \<and> int (length ex_omdb_corpus) < 2 ^ 63
   \<and> int (length (omdb_mapped (take 5 ex_omdb_corpus))) \<le> 5
   \<and> int (length (tmdb_mapped ex_tmdb_pages)) \<le> 5
   \<and> int (length (omdb_mapped (take 5 ex_omdb_corpus))) = 5
   \<and> int (length (tmdb_mapped ex_tmdb_pages)) = 3"
proof -
  have o: "omdb_Search ex_mem (omdb_honest 3 ex_omdb_corpus) ''Test'' 5 =
     Some (Return (Inr (omdb_mapped (take 5 ex_omdb_corpus))), [(''Test'', 1), (''Test'', 2)])"
    by code_simp
  have t: "tmdb_Search ex_mem (tmdb_honest 3 ex_tmdb_pages) ''Test'' 5 =
     Some (Return (Inr (tmdb_mapped ex_tmdb_pages)), [(''Test'', 1), (''Test'', 2)])"
    by code_simp
  have lo: "length ex_omdb_corpus = 6" by (simp add: ex_omdb_corpus_def)
  have lt: "length (filter (\<lambda>r. t_Type r = ''movie'' \<or> t_Type r = ''tv'') ex_tmdb_pages) = 3"
    by (simp add: ex_tmdb_pages_def ex_tmdb_def)
  note inst = C1_result_count
         [where mem = ex_mem and oclient = "omdb_honest 3 ex_omdb_corpus" and query = "''Test''"
            and M = 5
            and ors = "omdb_mapped (take 5 ex_omdb_corpus)"
            and ocalls = "[(''Test'', 1), (''Test'', 2)]"
            and tclient = "tmdb_honest 3 ex_tmdb_pages"
            and trs = "tmdb_mapped ex_tmdb_pages"
            and tcalls = "[(''Test'', 1), (''Test'', 2)]"
            and k = 3 and ocorpus = ex_omdb_corpus and tcorpus = ex_tmdb_pages
            and ohrs = "omdb_mapped (take 5 ex_omdb_corpus)"
            and ohcalls = "[(''Test'', 1), (''Test'', 2)]"
            and thrs = "tmdb_mapped ex_tmdb_pages"
            and thcalls = "[(''Test'', 1), (''Test'', 2)]"]
  from inst o have 1: "int (length (omdb_mapped (take 5 ex_omdb_corpus))) \<le> 5" by blast
  from inst t have 2: "int (length (tmdb_mapped ex_tmdb_pages)) \<le> 5" by blast
  have 3: "int (length ex_omdb_corpus) < 2 ^ 63" by (simp add: lo)
  have k: "(0::nat) < 3" by simp
  from inst k 3 o have "int (length (omdb_mapped (take 5 ex_omdb_corpus))) =
      (if 5 \<le> int (length ex_omdb_corpus) then 5 else int (length ex_omdb_corpus))"
    by blast
  then have 4: "int (length (omdb_mapped (take 5 ex_omdb_corpus))) = 5"
    by (simp add: lo)
  from inst k t have "int (length (tmdb_mapped ex_tmdb_pages)) =
      (if 5 \<le> int (length (filter (\<lambda>r. t_Type r = ''movie'' \<or> t_Type r = ''tv'') ex_tmdb_pages))
       then 5
       else int (length (filter (\<lambda>r. t_Type r = ''movie'' \<or> t_Type r = ''tv'') ex_tmdb_pages)))"
    by blast
  then have 5: "int (length (tmdb_mapped ex_tmdb_pages)) = 3"
    by (simp add: lt)
  from o t 1 2 3 4 5 show ?thesis by blast
qed

text \<open>
  C2. For every \<open>maxResults \<le> 0\<close>, whatever the provider and the query, Search of either
  adapter returns at once, with an error and without a single call of the client. The error
  is the value \<^verbatim>\<open>fmt.Errorf\<close> builds from \<^verbatim>\<open>"invalid value for maxResults: %d"\<close>: it is
  not the \<open>InvalidMaxResultsError\<close> that client.go declares and the tests ask for.
\<close>

theorem C2_invalid_maxResults:
  assumes "maxResults \<le> 0"
  shows "omdb_Search mem oclient query maxResults =
           Some (Return (Inl (ErrorString (''invalid value for maxResults: '' @ fmt_d maxResults))), [])
       \<and> tmdb_Search mem tclient query maxResults =
           Some (Return (Inl (ErrorString (''invalid value for maxResults: '' @ fmt_d maxResults))), [])
       \<and> ErrorString (''invalid value for maxResults: '' @ fmt_d maxResults) \<noteq> InvalidMaxResultsError"
  using assms by (simp add: omdb_Search_def tmdb_Search_def)

theorem C2_invalid_maxResults_witness:
  "(0::int) \<le> 0
   \<and> omdb_Search ex_mem ex_omdb_down ''Matrix'' 0 =
        Some (Return (Inl (ErrorString ''invalid value for maxResults: 0'')), [])
   \<and> tmdb_Search ex_mem ex_tmdb_down ''Matrix'' 0 =
        Some (Return (Inl (ErrorString ''invalid value for maxResults: 0'')), [])
   \<and> ErrorString ''invalid value for maxResults: 0'' \<noteq> InvalidMaxResultsError"
  using C2_invalid_maxResults [of 0 ex_mem ex_omdb_down "''Matrix''" ex_tmdb_down]
  by (simp add: fmt_d_0)

text \<open>
  C3. For every \<open>maxResults \<ge> 1\<close> the loop of Search returns against a provider that
  reports its totals honestly (for OMDB a corpus of fewer than \<open>2^63\<close> items, so that the
  total is an \<^verbatim>\<open>int\<close>): the loop, started as Search starts it, yields a result, after
  at most as many page requests as the corpus has pages, and one request when the corpus
  is empty. So does Search as a whole, whatever memory the runtime has: it ends with the
  loop's result, or before the first request when the slice cannot be allocated.
\<close>

theorem C3_loop_terminates:
  assumes "0 < k" and "1 \<le> M" and "int (length ocorpus) < 2 ^ 63"
  shows "(\<exists>out calls. omdb_Search mem (omdb_honest k ocorpus) query M = Some (out, calls)
            \<and> length calls \<le> max 1 ((length ocorpus + k - 1) div k))
       \<and> (\<exists>out calls. tmdb_Search mem (tmdb_honest k tcorpus) query M = Some (out, calls)
            \<and> length calls \<le> max 1 ((length tcorpus + k - 1) div k))
       \<and> (\<exists>out calls. omdb_loop (omdb_honest k ocorpus) query M 1 [] [] = Some (out, calls)
            \<and> length calls \<le> max 1 ((length ocorpus + k - 1) div k))
       \<and> (\<exists>out calls. tmdb_loop (tmdb_honest k tcorpus) query M 1 [] [] = Some (out, calls)
            \<and> length calls \<le> max 1 ((length tcorpus + k - 1) div k))"
proof -
  from omdb_loop_honest [OF assms, of query] obtain n where
    n: "n \<le> max 1 ((length ocorpus + k - 1) div k)"
    and lo: "omdb_loop (omdb_honest k ocorpus) query M 1 [] [] =
            Some (Inr (omdb_mapped (take (nat M) ocorpus)), map (Pair query) [1..int n])"
    by blast
  have len_n: "length (map (Pair query) [1..int n]) = n" by simp
  with n lo have ol: "\<exists>out calls. omdb_loop (omdb_honest k ocorpus) query M 1 [] [] = Some (out, calls)
            \<and> length calls \<le> max 1 ((length ocorpus + k - 1) div k)"
    by metis
  from tmdb_loop_honest [OF assms(1) assms(2), of tcorpus query] obtain m where
    m: "m \<le> max 1 ((length tcorpus + k - 1) div k)"
    and lt: "tmdb_loop (tmdb_honest k tcorpus) query M 1 [] [] =
            Some (Inr (take (nat M) (tmdb_mapped tcorpus)), map (Pair query) [1..int m])"
    by blast
  have len_m: "length (map (Pair query) [1..int m]) = m" by simp
  with m lt have tl: "\<exists>out calls. tmdb_loop (tmdb_honest k tcorpus) query M 1 [] [] = Some (out, calls)
            \<and> length calls \<le> max 1 ((length tcorpus + k - 1) div k)"
    by metis
  have os: "\<exists>out calls. omdb_Search mem (omdb_honest k ocorpus) query M = Some (out, calls)
            \<and> length calls \<le> max 1 ((length ocorpus + k - 1) div k)"
  proof (cases "\<exists>rs. makeslice mem M = Return rs")
    case True
    then obtain rs where "makeslice mem M = Return rs" by blast
    from omdb_Search_loop [OF assms(2) this, of "omdb_honest k ocorpus" query] lo
    have "omdb_Search mem (omdb_honest k ocorpus) query M =
            Some (Return (Inr (omdb_mapped (take (nat M) ocorpus))), map (Pair query) [1..int n])"
      by simp
    with n len_n show ?thesis by metis
  next
    case False
    then have "\<forall>rs. makeslice mem M \<noteq> Return rs" by simp
    from omdb_Search_no_return [OF assms(2) this, of "omdb_honest k ocorpus" query]
    show ?thesis by auto
  qed
  have ts: "\<exists>out calls. tmdb_Search mem (tmdb_honest k tcorpus) query M = Some (out, calls)
            \<and> length calls \<le> max 1 ((length tcorpus + k - 1) div k)"
  proof (cases "\<exists>rs. makeslice mem M = Return rs")
    case True
    then obtain rs where "makeslice mem M = Return rs" by blast
    from tmdb_Search_loop [OF assms(2) this, of "tmdb_honest k tcorpus" query] lt
    have "tmdb_Search mem (tmdb_honest k tcorpus) query M =
            Some (Return (Inr (take (nat M) (tmdb_mapped tcorpus))), map (Pair query) [1..int m])"
      by simp
    with m len_m show ?thesis by metis
  next
    case False
    then have "\<forall>rs. makeslice mem M \<noteq> Return rs" by simp
    from tmdb_Search_no_return [OF assms(2) this, of "tmdb_honest k tcorpus" query]
    show ?thesis by auto
  qed
  from os ts ol tl show ?thesis by blast
qed

theorem C3_loop_terminates_witness:
  "(0::nat) < 3 \<and> (1::int) \<le> 5 \<and> int (length ex_omdb_corpus) < 2 ^ 63
   \<and> (\<exists>out calls. omdb_Search ex_mem (omdb_honest 3 ex_omdb_corpus) ''Test'' 5 = Some (out, calls)
         \<and> length calls \<le> 2)
   \<and> (\<exists>out calls. tmdb_Search ex_mem (tmdb_honest 3 ex_tmdb_pages) ''Test'' 5 = Some (out, calls)
         \<and> length calls \<le> 2)
   \<and> (\<exists>out calls. omdb_loop (omdb_honest 3 ex_omdb_corpus) ''Test'' 5 1 [] [] = Some (out, calls)
         \<and> length calls \<le> 2)
   \<and> (\<exists>out calls. tmdb_loop (tmdb_honest 3 ex_tmdb_pages) ''Test'' 5 1 [] [] = Some (out, calls)
         \<and> length calls \<le> 2)"
proof -
  have a: "(0::nat) < 3" and b: "(1::int) \<le> 5" by simp_all
  have c: "int (length ex_omdb_corpus) < 2 ^ 63" by (simp add: ex_omdb_corpus_def)
  have po: "max 1 ((length ex_omdb_corpus + 3 - 1) div 3) = 2" by (simp add: ex_omdb_corpus_def)
  have pt: "max 1 ((length ex_tmdb_pages + 3 - 1) div 3) = 2" by (simp add: ex_tmdb_pages_def)
  from C3_loop_terminates [OF a b c, of ex_mem "''Test''" ex_tmdb_pages] a b c
  show ?thesis by (simp only: po pt)
qed

text \<open>
  C4, as stated, fails: a not-found answer can arrive on a later page, and then Search
  returns what the earlier pages gave, which is not the empty sequence. Here page 1 holds
  one title of a reported five, and page 2 is the not-found answer.
\<close>

theorem C4_not_found_later_page_counterexample:
  "ex_omdb_not_found_later ''Test'' 2 =
     DoResponse 200 (Decoded
       \<lparr>omdb_Result = [], omdb_TotalResults = '''', omdb_Error = ''Movie not found!''\<rparr>)
   \<and> omdb_Search ex_mem ex_omdb_not_found_later ''Test'' 3 =
       Some (Return (Inr [omdb_SearchResult (ex_omdb ''A'' ''movie'')]),
             [(''Test'', 1), (''Test'', 2)])
   \<and> [omdb_SearchResult (ex_omdb ''A'' ''movie'')] \<noteq> []"
  by (simp add: ex_omdb_not_found_later_def) code_simp

text \<open>
  C4, amended. An OMDB response whose Error field is \<^verbatim>\<open>"Movie not found!"\<close> makes the page
  fetch report no further page and no error, and append nothing. So the loop stops there
  and Search succeeds with the results of the pages before it: the empty sequence when the
  answer is that of the first page (Search has then allocated its slice, or the request
  would not have been made).
\<close>

theorem C4_not_found_is_success:
  assumes "client query p = DoResponse status (Decoded resp)"
    and "omdb_Error resp = ''Movie not found!''"
  shows "(0 < remaining \<longrightarrow>
            omdb_searchPage client query remaining p results calls =
              (Inr False, results, calls @ [(query, p)]))
       \<and> (int (length results) < M \<longrightarrow>
            omdb_loop client query M p results calls = Some (Inr results, calls @ [(query, p)]))
       \<and> (p = 1 \<and> 1 \<le> M \<and> makeslice mem M = Return [] \<longrightarrow>
            omdb_Search mem client query M = Some (Return (Inr []), [(query, 1)]))"
proof -
  have page: "omdb_searchPage client query r p rs cs = (Inr False, rs, cs @ [(query, p)])"
    if "0 < r" for r rs cs
    using assms that by (simp add: omdb_searchPage_def)
  have loop: "omdb_loop client query M p rs cs = Some (Inr rs, cs @ [(query, p)])"
    if room: "int (length rs) < M" for rs cs
  proof -
    from room have "0 < M - int (length rs)" by simp
    from omdb_loop_last [OF room page [OF this]] show ?thesis .
  qed
  have "omdb_Search mem client query M = Some (Return (Inr []), [(query, 1)])"
    if "p = 1" and "1 \<le> M" and "makeslice mem M = Return []"
    using loop [of "[]" "[]"] that by (simp add: omdb_Search_def)
  with page loop show ?thesis by blast
qed

theorem C4_not_found_is_success_witness:
  "ex_omdb_not_found ''Unknown'' 1 =
     DoResponse 200 (Decoded
       \<lparr>omdb_Result = [], omdb_TotalResults = '''', omdb_Error = ''Movie not found!''\<rparr>)
   \<and> omdb_searchPage ex_omdb_not_found ''Unknown'' 5 1 [] [] = (Inr False, [], [(''Unknown'', 1)])
   \<and> makeslice ex_mem 5 = Return []
   \<and> omdb_Search ex_mem ex_omdb_not_found ''Unknown'' 5 = Some (Return (Inr []), [(''Unknown'', 1)])"
proof -
  have a: "ex_omdb_not_found ''Unknown'' 1 =
     DoResponse 200 (Decoded
       \<lparr>omdb_Result = [], omdb_TotalResults = '''', omdb_Error = ''Movie not found!''\<rparr>)"
    by (simp add: ex_omdb_not_found_def)
  have b: "omdb_Error \<lparr>omdb_Result = [], omdb_TotalResults = '''', omdb_Error = ''Movie not found!''\<rparr>
             = ''Movie not found!''"
    by simp
  have c: "makeslice ex_mem 5 = Return []" by (simp add: makeslice_ex_mem)
  from C4_not_found_is_success
         [where client = ex_omdb_not_found and query = "''Unknown''" and p = 1 and remaining = 5
            and results = "[]" and M = 5 and calls = "[]" and mem = ex_mem, OF a b] a c
  show ?thesis by simp
qed

text \<open>
  C5. The TMDB adapter does what the claim says: converting a page gives the same slice
  and the same counter as converting the page without its items of an unmapped type, so
  such an item is neither returned nor counted. The OMDB adapter has no such step: every
  item of the page takes a slot until the quota is used up, and its type string is copied
  into the result as it is, also when it is none of the values of \<open>ResultType\<close>.
\<close>

theorem C5_unmapped_types:
  "(0 \<le> maxResults \<longrightarrow>
      snd (omdb_convert oitems maxResults results) =
        results @ take (nat maxResults) (map omdb_SearchResult oitems))
   \<and> Type (omdb_SearchResult oitem) = o_Type oitem
   \<and> tmdb_convert titems maxResults results =
       tmdb_convert (filter (\<lambda>r. t_Type r = ''movie'' \<or> t_Type r = ''tv'') titems) maxResults results"
proof -
  have kept: "snd (omdb_convert oitems maxResults results) =
        results @ take (nat maxResults) (map omdb_SearchResult oitems)"
    if "0 \<le> maxResults"
    using that by (simp add: omdb_convert_eq omdb_mapped_def)
  have copied: "Type (omdb_SearchResult oitem) = o_Type oitem"
    by (simp add: omdb_SearchResult_def)
  have skipped: "tmdb_convert titems maxResults results =
       tmdb_convert (filter (\<lambda>r. t_Type r = ''movie'' \<or> t_Type r = ''tv'') titems) maxResults results"
    by (simp only: tmdb_convert_filter)
  from kept copied skipped show ?thesis by blast
qed

theorem C5_unmapped_types_witness:
  "omdb_Search ex_mem (omdb_honest 10 [ex_omdb ''Pong'' ''game'']) ''Pong'' 1 =
     Some (Return (Inr [omdb_SearchResult (ex_omdb ''Pong'' ''game'')]), [(''Pong'', 1)])
   \<and> snd (omdb_convert [ex_omdb ''Pong'' ''game''] 1 []) = [omdb_SearchResult (ex_omdb ''Pong'' ''game'')]
   \<and> Type (omdb_SearchResult (ex_omdb ''Pong'' ''game'')) = ''game''
   \<and> ''game'' \<notin> {Movie, Series, Episode}
   \<and> tmdb_convert ex_tmdb_corpus 1 [] = tmdb_convert [ex_tmdb ''Alien'' ''movie'' 348] 1 []"
proof -
  have s: "omdb_Search ex_mem (omdb_honest 10 [ex_omdb ''Pong'' ''game'']) ''Pong'' 1 =
     Some (Return (Inr [omdb_SearchResult (ex_omdb ''Pong'' ''game'')]), [(''Pong'', 1)])"
    by code_simp
  have g: "''game'' \<notin> {Movie, Series, Episode}"
    by (simp add: Movie_def Series_def Episode_def)
  have f: "filter (\<lambda>r. t_Type r = ''movie'' \<or> t_Type r = ''tv'') ex_tmdb_corpus =
             [ex_tmdb ''Alien'' ''movie'' 348]"
    by (simp add: ex_tmdb_corpus_def ex_tmdb_def)
  from C5_unmapped_types
         [where maxResults = 1 and oitems = "[ex_omdb ''Pong'' ''game'']" and results = "[]"
            and oitem = "ex_omdb ''Pong'' ''game''" and titems = ex_tmdb_corpus]
  have "snd (omdb_convert [ex_omdb ''Pong'' ''game''] 1 []) = [omdb_SearchResult (ex_omdb ''Pong'' ''game'')]
   \<and> Type (omdb_SearchResult (ex_omdb ''Pong'' ''game'')) = ''game''
   \<and> tmdb_convert ex_tmdb_corpus 1 [] = tmdb_convert [ex_tmdb ''Alien'' ''movie'' 348] 1 []"
    by (simp add: f ex_omdb_def)
  with s g show ?thesis by blast
qed

text \<open>
  C6, as stated, fails. The OMDB adapter never looks at the status code, so a 500 whose
  body has no Error field is a success (here with no results). The TMDB adapter takes a
  false success flag for a failure only when a status_message comes with it, so a 200
  response with a false flag and no message is a success (here with one result).
\<close>

theorem C6_status_and_flag_counterexample:
  "ex_omdb_status_500 ''Test'' 1 =
     DoResponse 500 (Decoded \<lparr>omdb_Result = [], omdb_TotalResults = ''0'', omdb_Error = ''''\<rparr>)
   \<and> omdb_Search ex_mem ex_omdb_status_500 ''Test'' 5 = Some (Return (Inr []), [(''Test'', 1)])
   \<and> ex_tmdb_success_false ''Test'' 1 =
     DoResponse 200 (Decoded
       \<lparr>tmdb_Result = [ex_tmdb ''Alien'' ''movie'' 348], tmdb_TotalResults = 1,
        tmdb_TotalPages = 1, tmdb_Success = False, tmdb_StatusMessage = ''''\<rparr>)
   \<and> tmdb_Search ex_mem ex_tmdb_success_false ''Test'' 5 =
       Some (Return (Inr [tmdb_SearchResult (ex_tmdb ''Alien'' ''movie'' 348) Movie]), [(''Test'', 1)])"
  by (simp add: ex_omdb_status_500_def ex_tmdb_success_false_def) code_simp

text \<open>
  C6, amended. OMDB: a decoded response whose Error field is neither empty nor the
  not-found text ends the call with an error whose message is
  \<^verbatim>\<open>"OMDB API request failed with error: "\<close> followed by that field, character for
  character; the status code plays no part. TMDB: a decoded response whose status is not
  200, or whose success flag is false while its status_message is not empty, ends the call
  with an error whose message is \<^verbatim>\<open>"search request failed: "\<close> followed by the
  status_message. (The Go type of the error is not part of the statement; \<open>Quote\<close> is the
  library's \<^verbatim>\<open>strconv.Quote\<close>, which these messages do not pass through.)
\<close>

theorem C6_provider_failure:
  "(oclient query p = DoResponse ostatus (Decoded oresp) \<and> omdb_Error oresp \<noteq> ''''
      \<and> omdb_Error oresp \<noteq> ''Movie not found!'' \<and> int (length results) < M \<longrightarrow>
      (\<exists>e. omdb_loop oclient query M p results calls = Some (Inl e, calls @ [(query, p)])
          \<and> Error_of Quote e = ''OMDB API request failed with error: '' @ omdb_Error oresp))
   \<and> (tclient query p = DoResponse tstatus (Decoded tresp)
      \<and> (tstatus \<noteq> 200 \<or> (\<not> tmdb_Success tresp \<and> tmdb_StatusMessage tresp \<noteq> ''''))
      \<and> int (length results) < M \<longrightarrow>
      (\<exists>e. tmdb_loop tclient query M p results calls = Some (Inl e, calls @ [(query, p)])
          \<and> Error_of Quote e = ''search request failed: '' @ tmdb_StatusMessage tresp))"
proof (intro conjI impI)
  assume h: "oclient query p = DoResponse ostatus (Decoded oresp) \<and> omdb_Error oresp \<noteq> ''''
      \<and> omdb_Error oresp \<noteq> ''Movie not found!'' \<and> int (length results) < M"
  then have "omdb_searchPage oclient query (M - int (length results)) p results calls =
      (Inl (ErrorString (''OMDB API request failed with error: '' @ omdb_Error oresp)), results,
       calls @ [(query, p)])"
    by (simp add: omdb_searchPage_def)
  from omdb_loop_error [OF _ this] h
  have "omdb_loop oclient query M p results calls =
      Some (Inl (ErrorString (''OMDB API request failed with error: '' @ omdb_Error oresp)),
            calls @ [(query, p)])" by simp
  then show "\<exists>e. omdb_loop oclient query M p results calls = Some (Inl e, calls @ [(query, p)])
          \<and> Error_of Quote e = ''OMDB API request failed with error: '' @ omdb_Error oresp"
    by simp
next
  assume h: "tclient query p = DoResponse tstatus (Decoded tresp)
      \<and> (tstatus \<noteq> 200 \<or> (\<not> tmdb_Success tresp \<and> tmdb_StatusMessage tresp \<noteq> ''''))
      \<and> int (length results) < M"
  then have "tmdb_searchPage tclient query (M - int (length results)) p results calls =
      (Inl (ErrorString (''search request failed: '' @ tmdb_StatusMessage tresp)), results,
       calls @ [(query, p)])"
    by (auto simp: tmdb_searchPage_def)
  from tmdb_loop_error [OF _ this] h
  have "tmdb_loop tclient query M p results calls =
      Some (Inl (ErrorString (''search request failed: '' @ tmdb_StatusMessage tresp)),
            calls @ [(query, p)])" by simp
  then show "\<exists>e. tmdb_loop tclient query M p results calls = Some (Inl e, calls @ [(query, p)])
          \<and> Error_of Quote e = ''search request failed: '' @ tmdb_StatusMessage tresp"
    by simp
qed

theorem C6_provider_failure_witness:
  "ex_omdb_unauthorized ''Test'' 1 =
     DoResponse 401 (Decoded
       \<lparr>omdb_Result = [], omdb_TotalResults = '''', omdb_Error = ''Invalid API key!''\<rparr>)
   \<and> ex_tmdb_unauthorized ''Star Wars'' 1 =
     DoResponse 401 (Decoded
       \<lparr>tmdb_Result = [], tmdb_TotalResults = 0, tmdb_TotalPages = 0, tmdb_Success = False,
        tmdb_StatusMessage = ''Invalid API key: You must be granted a valid key.''\<rparr>)
   \<and> (\<forall>Quote. \<exists>e.
          omdb_Search ex_mem ex_omdb_unauthorized ''Test'' 5 = Some (Return (Inl e), [(''Test'', 1)])
          \<and> Error_of Quote e = ''OMDB API request failed with error: Invalid API key!'')
   \<and> (\<forall>Quote. \<exists>e.
          tmdb_Search ex_mem ex_tmdb_unauthorized ''Star Wars'' 5 =
            Some (Return (Inl e), [(''Star Wars'', 1)])
          \<and> Error_of Quote e = ''search request failed: Invalid API key: You must be granted a valid key.'')"
proof -
  have a: "ex_omdb_unauthorized ''Test'' 1 =
     DoResponse 401 (Decoded
       \<lparr>omdb_Result = [], omdb_TotalResults = '''', omdb_Error = ''Invalid API key!''\<rparr>)"
    by (simp add: ex_omdb_unauthorized_def)
  have b: "ex_tmdb_unauthorized ''Star Wars'' 1 =
     DoResponse 401 (Decoded
       \<lparr>tmdb_Result = [], tmdb_TotalResults = 0, tmdb_TotalPages = 0, tmdb_Success = False,
        tmdb_StatusMessage = ''Invalid API key: You must be granted a valid key.''\<rparr>)"
    by (simp add: ex_tmdb_unauthorized_def)
  have o: "\<exists>e. omdb_Search ex_mem ex_omdb_unauthorized ''Test'' 5 =
                 Some (Return (Inl e), [(''Test'', 1)])
          \<and> Error_of Quote e = ''OMDB API request failed with error: Invalid API key!''"
    for Quote
  proof -
    from C6_provider_failure
           [where oclient = ex_omdb_unauthorized and query = "''Test''" and p = 1 and results = "[]"
              and M = 5 and calls = "[]" and ostatus = 401 and Quote = Quote
              and oresp = "\<lparr>omdb_Result = [], omdb_TotalResults = '''', omdb_Error = ''Invalid API key!''\<rparr>"
              and tclient = ex_tmdb_unauthorized and tstatus = 401
              and tresp = "\<lparr>tmdb_Result = [], tmdb_TotalResults = 0, tmdb_TotalPages = 0,
                            tmdb_Success = False,
                            tmdb_StatusMessage = ''Invalid API key: You must be granted a valid key.''\<rparr>"]
         a
    obtain e where l: "omdb_loop ex_omdb_unauthorized ''Test'' 5 1 [] [] = Some (Inl e, [(''Test'', 1)])"
      and m: "Error_of Quote e = ''OMDB API request failed with error: Invalid API key!''"
      by auto
    from l have "omdb_Search ex_mem ex_omdb_unauthorized ''Test'' 5 =
                   Some (Return (Inl e), [(''Test'', 1)])"
      by (simp add: omdb_Search_ex_mem)
    with m show ?thesis by blast
  qed
  have t: "\<exists>e. tmdb_Search ex_mem ex_tmdb_unauthorized ''Star Wars'' 5 =
                 Some (Return (Inl e), [(''Star Wars'', 1)])
          \<and> Error_of Quote e = ''search request failed: Invalid API key: You must be granted a valid key.''"
    for Quote
  proof -
    from C6_provider_failure
           [where tclient = ex_tmdb_unauthorized and query = "''Star Wars''" and p = 1 and results = "[]"
              and M = 5 and calls = "[]" and tstatus = 401 and Quote = Quote
              and tresp = "\<lparr>tmdb_Result = [], tmdb_TotalResults = 0, tmdb_TotalPages = 0,
                            tmdb_Success = False,
                            tmdb_StatusMessage = ''Invalid API key: You must be granted a valid key.''\<rparr>"
              and oclient = ex_omdb_unauthorized and ostatus = 401
              and oresp = "\<lparr>omdb_Result = [], omdb_TotalResults = '''', omdb_Error = ''Invalid API key!''\<rparr>"]
         b
    obtain e where l: "tmdb_loop ex_tmdb_unauthorized ''Star Wars'' 5 1 [] [] =
                         Some (Inl e, [(''Star Wars'', 1)])"
      and m: "Error_of Quote e = ''search request failed: Invalid API key: You must be granted a valid key.''"
      by auto
    from l have "tmdb_Search ex_mem ex_tmdb_unauthorized ''Star Wars'' 5 =
                   Some (Return (Inl e), [(''Star Wars'', 1)])"
      by (simp add: tmdb_Search_ex_mem)
    with m show ?thesis by blast
  qed
  from a b o t show ?thesis by blast
qed

text \<open>
  C7. A page whose body the JSON decoder rejects ends the whole call with an error, after
  that one request: the loop returns the decoder's own error, as it got it
  (\<^verbatim>\<open>return false, err\<close>). It is not wrapped into the \<open>ResultParsingError\<close> of client.go,
  which the tests of both adapters ask for.
\<close>

theorem C7_decode_error_not_wrapped:
  assumes "oclient query p = DoResponse ostatus (Malformed msg)"
    and "tclient query p = DoResponse tstatus (Malformed msg)"
    and "int (length results) < M"
  shows "omdb_loop oclient query M p results calls = Some (Inl (DecodeError msg), calls @ [(query, p)])
       \<and> tmdb_loop tclient query M p results calls = Some (Inl (DecodeError msg), calls @ [(query, p)])
       \<and> (\<forall>reason. DecodeError msg \<noteq> ResultParsingError reason)"
proof -
  have "omdb_searchPage oclient query (M - int (length results)) p results calls =
          (Inl (DecodeError msg), results, calls @ [(query, p)])"
    using assms by (simp add: omdb_searchPage_def)
  from omdb_loop_error [OF assms(3) this]
  have o: "omdb_loop oclient query M p results calls = Some (Inl (DecodeError msg), calls @ [(query, p)])" .
  have "tmdb_searchPage tclient query (M - int (length results)) p results calls =
          (Inl (DecodeError msg), results, calls @ [(query, p)])"
    using assms by (simp add: tmdb_searchPage_def)
  from tmdb_loop_error [OF assms(3) this]
  have t: "tmdb_loop tclient query M p results calls = Some (Inl (DecodeError msg), calls @ [(query, p)])" .
  from o t show ?thesis by simp
qed

theorem C7_decode_error_not_wrapped_witness:
  "ex_omdb_malformed ''Test'' 1 = DoResponse 200 (Malformed ''unexpected EOF'')
   \<and> ex_tmdb_malformed ''Test'' 1 = DoResponse 200 (Malformed ''unexpected EOF'')
   \<and> omdb_Search ex_mem ex_omdb_malformed ''Test'' 5 =
       Some (Return (Inl (DecodeError ''unexpected EOF'')), [(''Test'', 1)])
   \<and> tmdb_Search ex_mem ex_tmdb_malformed ''Test'' 5 =
       Some (Return (Inl (DecodeError ''unexpected EOF'')), [(''Test'', 1)])
   \<and> DecodeError ''unexpected EOF'' \<noteq> ResultParsingError ''unexpected EOF''"
proof -
  have a: "ex_omdb_malformed ''Test'' 1 = DoResponse 200 (Malformed ''unexpected EOF'')"
    by (simp add: ex_omdb_malformed_def)
  have b: "ex_tmdb_malformed ''Test'' 1 = DoResponse 200 (Malformed ''unexpected EOF'')"
    by (simp add: ex_tmdb_malformed_def)
  have c: "int (length ([] :: SearchResult list)) < 5" by simp
  from C7_decode_error_not_wrapped
         [where oclient = ex_omdb_malformed and tclient = ex_tmdb_malformed and query = "''Test''"
            and p = 1 and results = "[]" and M = 5 and calls = "[]", OF a b c] a b
  show ?thesis by (simp add: omdb_Search_ex_mem tmdb_Search_ex_mem)
qed

text \<open>
  C8. A page fetch that returns without an error reports a further page exactly when the
  provider reports more data and the conversion left the quota counter positive. For TMDB
  the first is \<open>pageNumber < total_pages\<close>. For OMDB it is that the response is no
  not-found answer and that the results accumulated by the whole call so far, this page
  included, are fewer than totalResults. The counter stays positive exactly when the page
  had fewer items to convert (TMDB: items of a mapped type) than the quota it was given.
\<close>

theorem C8_hasMorePages:
  "(0 < remaining \<and> oclient query p = DoResponse ostatus (Decoded oresp)
      \<and> omdb_searchPage oclient query remaining p results calls = (Inr ohasMore, oresults, ocalls) \<longrightarrow>
      (ohasMore \<longleftrightarrow>
         (omdb_Error oresp = ''''
          \<and> (\<exists>totalResults. Atoi (omdb_TotalResults oresp) = Inr totalResults
                \<and> int (length oresults) < totalResults))
         \<and> 0 < fst (omdb_convert (omdb_Result oresp) remaining results)))
   \<and> (0 < remaining \<and> tclient query p = DoResponse tstatus (Decoded tresp)
      \<and> tmdb_searchPage tclient query remaining p results calls = (Inr thasMore, tresults, tcalls) \<longrightarrow>
      (thasMore \<longleftrightarrow>
         p < tmdb_TotalPages tresp
         \<and> 0 < fst (tmdb_convert (tmdb_Result tresp) remaining results)))
   \<and> (0 < remaining \<longrightarrow>
      (0 < fst (omdb_convert oitems remaining results) \<longleftrightarrow> int (length oitems) < remaining)
      \<and> (0 < fst (tmdb_convert titems remaining results) \<longleftrightarrow>
           int (length (tmdb_mapped titems)) < remaining))"
proof (intro conjI impI)
  assume "0 < remaining \<and> oclient query p = DoResponse ostatus (Decoded oresp)
      \<and> omdb_searchPage oclient query remaining p results calls = (Inr ohasMore, oresults, ocalls)"
  then show "ohasMore \<longleftrightarrow>
         (omdb_Error oresp = ''''
          \<and> (\<exists>totalResults. Atoi (omdb_TotalResults oresp) = Inr totalResults
                \<and> int (length oresults) < totalResults))
         \<and> 0 < fst (omdb_convert (omdb_Result oresp) remaining results)"
    by (auto simp: omdb_searchPage_def split: if_splits sum.splits prod.splits)
next
  assume "0 < remaining \<and> tclient query p = DoResponse tstatus (Decoded tresp)
      \<and> tmdb_searchPage tclient query remaining p results calls = (Inr thasMore, tresults, tcalls)"
  then show "thasMore \<longleftrightarrow>
         p < tmdb_TotalPages tresp
         \<and> 0 < fst (tmdb_convert (tmdb_Result tresp) remaining results)"
    by (auto simp: tmdb_searchPage_def split: if_splits prod.splits)
next
  assume "0 < remaining"
  then show "0 < fst (omdb_convert oitems remaining results) \<longleftrightarrow> int (length oitems) < remaining"
    by (simp add: omdb_convert_eq)
next
  assume "0 < remaining"
  then show "0 < fst (tmdb_convert titems remaining results) \<longleftrightarrow>
           int (length (tmdb_mapped titems)) < remaining"
    by (simp add: tmdb_convert_eq)
qed

theorem C8_hasMorePages_witness:
  "omdb_searchPage (omdb_honest 3 ex_omdb_corpus) ''Test'' 5 1 [] [] =
     (Inr True, omdb_mapped (take 3 ex_omdb_corpus), [(''Test'', 1)])
   \<and> Atoi (fmt_d 6) = Inr 6
   \<and> int (length (omdb_mapped (take 3 ex_omdb_corpus))) < 6
   \<and> 0 < fst (omdb_convert (take 3 ex_omdb_corpus) 5 [])
   \<and> tmdb_searchPage (tmdb_honest 2 ex_tmdb_pages) ''Test'' 5 1 [] [] =
     (Inr True, tmdb_mapped (take 2 ex_tmdb_pages), [(''Test'', 1)])
   \<and> 0 < fst (tmdb_convert (take 2 ex_tmdb_pages) 5 [])
   \<and> int (length (tmdb_mapped (take 2 ex_tmdb_pages))) < 5"
proof -
  have o: "omdb_searchPage (omdb_honest 3 ex_omdb_corpus) ''Test'' 5 1 [] [] =
     (Inr True, omdb_mapped (take 3 ex_omdb_corpus), [(''Test'', 1)])"
    by code_simp
  have t: "tmdb_searchPage (tmdb_honest 2 ex_tmdb_pages) ''Test'' 5 1 [] [] =
     (Inr True, tmdb_mapped (take 2 ex_tmdb_pages), [(''Test'', 1)])"
    by code_simp
  have oc: "omdb_honest 3 ex_omdb_corpus ''Test'' 1 =
      DoResponse 200 (Decoded \<lparr>omdb_Result = take 3 ex_omdb_corpus,
         omdb_TotalResults = fmt_d 6, omdb_Error = ''''\<rparr>)"
    by (simp add: omdb_honest_def ex_omdb_corpus_def)
  have tc: "tmdb_honest 2 ex_tmdb_pages ''Test'' 1 =
      DoResponse 200 (Decoded \<lparr>tmdb_Result = take 2 ex_tmdb_pages, tmdb_TotalResults = 4,
         tmdb_TotalPages = 2, tmdb_Success = False, tmdb_StatusMessage = ''''\<rparr>)"
    by (simp add: tmdb_honest_def ex_tmdb_pages_def)
  have a: "Atoi (fmt_d 6) = Inr 6" by (simp add: Atoi_fmt_d)
  have r: "(0::int) < 5" by simp
  note inst = C8_hasMorePages
         [where remaining = 5 and query = "''Test''" and p = 1 and results = "[]" and calls = "[]"
            and oclient = "omdb_honest 3 ex_omdb_corpus" and ostatus = 200
            and oresp = "\<lparr>omdb_Result = take 3 ex_omdb_corpus, omdb_TotalResults = fmt_d 6,
                          omdb_Error = ''''\<rparr>"
            and ohasMore = True and oresults = "omdb_mapped (take 3 ex_omdb_corpus)"
            and ocalls = "[(''Test'', 1)]"
            and tclient = "tmdb_honest 2 ex_tmdb_pages" and tstatus = 200
            and tresp = "\<lparr>tmdb_Result = take 2 ex_tmdb_pages, tmdb_TotalResults = 4,
                          tmdb_TotalPages = 2, tmdb_Success = False, tmdb_StatusMessage = ''''\<rparr>"
            and thasMore = True and tresults = "tmdb_mapped (take 2 ex_tmdb_pages)"
            and tcalls = "[(''Test'', 1)]"
            and oitems = "take 3 ex_omdb_corpus" and titems = "take 2 ex_tmdb_pages"]
  from inst r o oc
  have "(\<exists>totalResults. Atoi (omdb_TotalResults \<lparr>omdb_Result = take 3 ex_omdb_corpus,
               omdb_TotalResults = fmt_d 6, omdb_Error = ''''\<rparr>) = Inr totalResults
             \<and> int (length (omdb_mapped (take 3 ex_omdb_corpus))) < totalResults)
        \<and> 0 < fst (omdb_convert (omdb_Result \<lparr>omdb_Result = take 3 ex_omdb_corpus,
               omdb_TotalResults = fmt_d 6, omdb_Error = ''''\<rparr>) 5 [])"
    by blast
  then have 1: "int (length (omdb_mapped (take 3 ex_omdb_corpus))) < 6
           \<and> 0 < fst (omdb_convert (take 3 ex_omdb_corpus) 5 [])"
    by (auto simp: a)
  from inst r t tc
  have "0 < fst (tmdb_convert (tmdb_Result \<lparr>tmdb_Result = take 2 ex_tmdb_pages,
               tmdb_TotalResults = 4, tmdb_TotalPages = 2, tmdb_Success = False,
               tmdb_StatusMessage = ''''\<rparr>) 5 [])"
    by blast
  then have conv: "0 < fst (tmdb_convert (take 2 ex_tmdb_pages) 5 [])" by simp
  with inst r have 2: "0 < fst (tmdb_convert (take 2 ex_tmdb_pages) 5 [])
           \<and> int (length (tmdb_mapped (take 2 ex_tmdb_pages))) < 5"
    by blast
  from o t a 1 2 show ?thesis by blast
qed

text \<open>
  C9. A Search that succeeds has asked for the pages 1, 2, ... in this order, each once,
  and returns what these pages offer (the canonical results of their items, in the items'
  order), one page after the other, cut after \<open>maxResults\<close> entries. Nothing is sorted or
  moved.
\<close>

theorem C9_result_order:
  "(omdb_Search mem oclient query M = Some (Return (Inr ors), ocalls) \<longrightarrow>
      ocalls = map (Pair query) [1..int (length ocalls)]
      \<and> ors = take (nat M) (concat (map (omdb_page oclient query) [1..int (length ocalls)])))
   \<and> (tmdb_Search mem tclient query M = Some (Return (Inr trs), tcalls) \<longrightarrow>
      tcalls = map (Pair query) [1..int (length tcalls)]
      \<and> trs = take (nat M) (concat (map (tmdb_page tclient query) [1..int (length tcalls)])))"
proof -
  have o: "ocalls = map (Pair query) [1..int (length ocalls)]
      \<and> ors = take (nat M) (concat (map (omdb_page oclient query) [1..int (length ocalls)]))"
    if s: "omdb_Search mem oclient query M = Some (Return (Inr ors), ocalls)"
  proof -
    from omdb_Search_ok [OF s] have M: "1 \<le> M"
      and l: "omdb_loop oclient query M 1 [] [] = Some (Inr ors, ocalls)"
      by simp_all
    from omdb_loop_trace [OF l] M obtain n where n: "0 \<le> n"
      and c: "ocalls = map (Pair query) [1..n]"
      and r: "ors = take (nat M) (concat (map (omdb_page oclient query) [1..n]))"
      by auto
    from c n have "int (length ocalls) = n" by simp
    with c r show ?thesis by simp
  qed
  have t: "tcalls = map (Pair query) [1..int (length tcalls)]
      \<and> trs = take (nat M) (concat (map (tmdb_page tclient query) [1..int (length tcalls)]))"
    if s: "tmdb_Search mem tclient query M = Some (Return (Inr trs), tcalls)"
  proof -
    from tmdb_Search_ok [OF s] have M: "1 \<le> M"
      and l: "tmdb_loop tclient query M 1 [] [] = Some (Inr trs, tcalls)"
      by simp_all
    from tmdb_loop_trace [OF l] M obtain n where n: "0 \<le> n"
      and c: "tcalls = map (Pair query) [1..n]"
      and r: "trs = take (nat M) (concat (map (tmdb_page tclient query) [1..n]))"
      by auto
    from c n have "int (length tcalls) = n" by simp
    with c r show ?thesis by simp
  qed
  from o t show ?thesis by blast
qed

theorem C9_result_order_witness:
  "omdb_Search ex_mem (omdb_honest 3 ex_omdb_corpus) ''Test'' 5 =
     Some (Return (Inr (omdb_mapped (take 5 ex_omdb_corpus))), [(''Test'', 1), (''Test'', 2)])
   \<and> omdb_mapped (take 5 ex_omdb_corpus) =
       take 5 (omdb_page (omdb_honest 3 ex_omdb_corpus) ''Test'' 1 @
               omdb_page (omdb_honest 3 ex_omdb_corpus) ''Test'' 2)
   \<and> tmdb_Search ex_mem (tmdb_honest 2 ex_tmdb_pages) ''Test'' 3 =
     Some (Return (Inr (tmdb_mapped ex_tmdb_pages)), [(''Test'', 1), (''Test'', 2)])
   \<and> tmdb_mapped ex_tmdb_pages =
       take 3 (tmdb_page (tmdb_honest 2 ex_tmdb_pages) ''Test'' 1 @
               tmdb_page (tmdb_honest 2 ex_tmdb_pages) ''Test'' 2)"
proof -
  have o: "omdb_Search ex_mem (omdb_honest 3 ex_omdb_corpus) ''Test'' 5 =
     Some (Return (Inr (omdb_mapped (take 5 ex_omdb_corpus))), [(''Test'', 1), (''Test'', 2)])"
    by code_simp
  have t: "tmdb_Search ex_mem (tmdb_honest 2 ex_tmdb_pages) ''Test'' 3 =
     Some (Return (Inr (tmdb_mapped ex_tmdb_pages)), [(''Test'', 1), (''Test'', 2)])"
    by code_simp
  have u: "[1..2] = [1, 2 :: int]" by (simp add: upto_rec1)
  from C9_result_order
         [where oclient = "omdb_honest 3 ex_omdb_corpus" and query = "''Test''" and M = 5
            and ors = "omdb_mapped (take 5 ex_omdb_corpus)"
            and ocalls = "[(''Test'', 1), (''Test'', 2)]" and mem = ex_mem] o
  have 1: "omdb_mapped (take 5 ex_omdb_corpus) =
       take 5 (omdb_page (omdb_honest 3 ex_omdb_corpus) ''Test'' 1 @
               omdb_page (omdb_honest 3 ex_omdb_corpus) ''Test'' 2)"
    by (simp add: u)
  from C9_result_order
         [where tclient = "tmdb_honest 2 ex_tmdb_pages" and query = "''Test''" and M = 3
            and trs = "tmdb_mapped ex_tmdb_pages"
            and tcalls = "[(''Test'', 1), (''Test'', 2)]" and mem = ex_mem] t
  have 2: "tmdb_mapped ex_tmdb_pages =
       take 3 (tmdb_page (tmdb_honest 2 ex_tmdb_pages) ''Test'' 1 @
               tmdb_page (tmdb_honest 2 ex_tmdb_pages) ''Test'' 2)"
    by (simp add: u)
  from o t 1 2 show ?thesis by blast
qed

text \<open>
  C10. An OMDB response that decodes and has an empty Error field, but whose totalResults
  is no decimal integer for \<^verbatim>\<open>strconv.Atoi\<close> (the empty string of an absent field is
  none), makes the page fetch fail with the conversion error, whatever its Search array
  held; the loop returns that error and no results. The error is the value of
  \<^verbatim>\<open>fmt.Errorf("failed to convert totalResults to int: %v", err)\<close>, whose text is this
  prefix followed by the text of the error of \<^verbatim>\<open>strconv.Atoi\<close>.
\<close>

theorem C10_totalResults_conversion_error:
  assumes "client query p = DoResponse status (Decoded resp)"
    and "omdb_Error resp = ''''"
    and "Atoi (omdb_TotalResults resp) = Inl err"
  shows "(0 < remaining \<longrightarrow>
            fst (omdb_searchPage client query remaining p results calls) =
              Inl (Errorf_v ''failed to convert totalResults to int: '' err))
       \<and> (int (length results) < M \<longrightarrow>
            omdb_loop client query M p results calls =
              Some (Inl (Errorf_v ''failed to convert totalResults to int: '' err),
                    calls @ [(query, p)]))
       \<and> Error_of Quote (Errorf_v ''failed to convert totalResults to int: '' err) =
           ''failed to convert totalResults to int: '' @ Error_of Quote err
       \<and> Atoi '''' = Inl (NumError ''Atoi'' '''' ErrSyntax)"
proof -
  have page: "0 < r \<Longrightarrow> \<exists>rs'. omdb_searchPage client query r p results calls =
          (Inl (Errorf_v ''failed to convert totalResults to int: '' err), rs',
           calls @ [(query, p)])" for r
    using assms by (simp add: omdb_searchPage_def split: prod.splits)
  have "omdb_loop client query M p results calls =
          Some (Inl (Errorf_v ''failed to convert totalResults to int: '' err),
                calls @ [(query, p)])" if room: "int (length results) < M"
  proof -
    from room have "0 < M - int (length results)" by simp
    from page [OF this] obtain rs' where
      "omdb_searchPage client query (M - int (length results)) p results calls =
          (Inl (Errorf_v ''failed to convert totalResults to int: '' err), rs',
           calls @ [(query, p)])" by blast
    from omdb_loop_error [OF room this] show ?thesis .
  qed
  moreover have "Atoi '''' = Inl (NumError ''Atoi'' '''' ErrSyntax)" by (simp add: Atoi_def)
  moreover have "Error_of Quote (Errorf_v ''failed to convert totalResults to int: '' err) =
           ''failed to convert totalResults to int: '' @ Error_of Quote err"
    by simp
  moreover have "fst (omdb_searchPage client query remaining p results calls) =
              Inl (Errorf_v ''failed to convert totalResults to int: '' err)"
    if "0 < remaining" using page [OF that] by auto
  ultimately show ?thesis by blast
qed

theorem C10_totalResults_conversion_error_witness:
  "ex_omdb_no_total ''Test'' 1 =
     DoResponse 200 (Decoded
       \<lparr>omdb_Result = [ex_omdb ''A'' ''movie''], omdb_TotalResults = '''', omdb_Error = ''''\<rparr>)
   \<and> Atoi '''' = Inl (NumError ''Atoi'' '''' ErrSyntax)
   \<and> omdb_Search ex_mem ex_omdb_no_total ''Test'' 5 =
       Some (Return (Inl (Errorf_v ''failed to convert totalResults to int: ''
                            (NumError ''Atoi'' '''' ErrSyntax))), [(''Test'', 1)])
   \<and> (\<forall>Quote. Error_of Quote (Errorf_v ''failed to convert totalResults to int: ''
                                 (NumError ''Atoi'' '''' ErrSyntax)) =
         ''failed to convert totalResults to int: strconv.Atoi: parsing '' @ Quote '''' @
         '': invalid syntax'')"
proof -
  have a: "ex_omdb_no_total ''Test'' 1 =
     DoResponse 200 (Decoded
       \<lparr>omdb_Result = [ex_omdb ''A'' ''movie''], omdb_TotalResults = '''', omdb_Error = ''''\<rparr>)"
    by (simp add: ex_omdb_no_total_def)
  have b: "omdb_Error \<lparr>omdb_Result = [ex_omdb ''A'' ''movie''], omdb_TotalResults = '''', omdb_Error = ''''\<rparr> = ''''"
    by simp
  have c: "Atoi (omdb_TotalResults \<lparr>omdb_Result = [ex_omdb ''A'' ''movie''], omdb_TotalResults = '''', omdb_Error = ''''\<rparr>)
             = Inl (NumError ''Atoi'' '''' ErrSyntax)"
    by (simp add: Atoi_def)
  from C10_totalResults_conversion_error
         [where client = ex_omdb_no_total and query = "''Test''" and p = 1 and remaining = 1
            and results = "[]" and M = 5 and calls = "[]", OF a b c] a
  show ?thesis by (simp add: omdb_Search_ex_mem)
qed


end
